theory Spec2Isabelle
  imports Complex_Main "HOL-Library.Sublist" "HOL-Library.Multiset"
begin

section \<open>Strings\<close>

text \<open>
  JavaScript strings are modelled as \<open>string\<close>, one \<open>char\<close> per UTF-16 code unit below 256
  (the Latin-1 range). \<open>isWhitespace\<close> is the class \<open>\s\<close> of a JavaScript regular expression
  on that range; \<open>toLowerCase\<close> is \<open>String.prototype.toLowerCase\<close> on that range.
\<close>

definition isWhitespace :: "char \<Rightarrow> bool" where
  "isWhitespace c = (let n = (of_char c :: nat) in (9 \<le> n \<and> n \<le> 13) \<or> n = 32 \<or> n = 160)"

definition toLowerChar :: "char \<Rightarrow> char" where
  "toLowerChar c =
     (let n = (of_char c :: nat) in
      if (65 \<le> n \<and> n \<le> 90) \<or> (192 \<le> n \<and> n \<le> 222 \<and> n \<noteq> 215)
      then char_of (n + 32) else c)"

definition toLowerCase :: "string \<Rightarrow> string" where
  "toLowerCase s = map toLowerChar s"

text \<open>\<open>s.trim()\<close>: whitespace removed at both ends.\<close>

definition trim :: "string \<Rightarrow> string" where
  "trim s = rev (dropWhile isWhitespace (rev (dropWhile isWhitespace s)))"

text \<open>
  \<open>s.split(/\s+/)\<close>: the pieces of \<open>s\<close> between maximal runs of whitespace; a run at the
  start or at the end of \<open>s\<close> leaves an empty piece there, and the empty string splits into
  one empty piece. \<open>cur\<close> is the piece being read.
\<close>

function splitWhitespace :: "string \<Rightarrow> string \<Rightarrow> string list" where
  "splitWhitespace cur [] = [cur]"
| "splitWhitespace cur (c # cs) =
     (if isWhitespace c then cur # splitWhitespace [] (dropWhile isWhitespace cs)
      else splitWhitespace (cur @ [c]) cs)"
  by pat_completeness auto
termination
  by (relation "measure (\<lambda>(cur, s). length s)")
     (auto simp: length_dropWhile_le less_Suc_eq_le)

text \<open>\<open>text.includes(word)\<close>: \<open>word\<close> occurs in \<open>text\<close> at some position.\<close>

fun includesStr :: "string \<Rightarrow> string \<Rightarrow> bool" where
  "includesStr [] word = (word = [])"
| "includesStr (c # cs) word = (prefix word (c # cs) \<or> includesStr cs word)"

text \<open>\<open>path.split('/')\<close>, with \<open>cur\<close> the piece being read, and \<open>.pop()\<close> of the result.\<close>

fun splitSlash :: "string \<Rightarrow> string \<Rightarrow> string list" where
  "splitSlash cur [] = [cur]"
| "splitSlash cur (c # cs) =
     (if c = CHR ''/'' then cur # splitSlash [] cs else splitSlash (cur @ [c]) cs)"

definition lastSegment :: "string \<Rightarrow> string" where
  "lastSegment path = last (splitSlash [] path)"

section \<open>Numbers\<close>

text \<open>
  A JavaScript number is an IEEE 754 double: a finite value, one of the two infinities, or
  NaN. \<open>Finite x\<close> stands for the double of value \<open>x\<close>; every operation below rounds its
  result, so that it only yields values a double can hold. The sign of a zero is not
  modelled: the engine compares numbers with \<open>===\<close>, \<open><\<close> and \<open>>\<close>, which do not see it,
  never divides by a zero, and returns no zero that is negative.
\<close>

datatype double = Finite real | PosInf | NegInf | NaN

text \<open>
  The binary exponent of a real \<open>x \<noteq> 0\<close>, the integer \<open>e\<close> with
  \<open>2 powi e \<le> \<bar>x\<bar> < 2 powi (e + 1)\<close>, found by halving or doubling.
\<close>

function exponentUp :: "real \<Rightarrow> int" where
  "exponentUp x = (if 2 \<le> x then exponentUp (x / 2) + 1 else 0)"
  by pat_completeness auto
termination
proof (relation "measure (\<lambda>x. nat \<lfloor>x\<rfloor>)", goal_cases)
  case 1
  show ?case by simp
next
  case (2 x)
  then have "x / 2 \<le> x - 1" by simp
  then have "\<lfloor>x / 2\<rfloor> \<le> \<lfloor>x - 1\<rfloor>" by (rule floor_mono)
  moreover from 2 have "0 < \<lfloor>x\<rfloor>" by simp
  ultimately show ?case by simp
qed

function exponentDown :: "real \<Rightarrow> int" where
  "exponentDown x = (if 0 < x \<and> x < 1 then exponentDown (2 * x) - 1 else 0)"
  by pat_completeness auto
termination
proof (relation "measure (\<lambda>x. nat \<lceil>1 / x\<rceil>)", goal_cases)
  case 1
  show ?case by simp
next
  case (2 x)
  then have x: "0 < x" "x < 1" by simp_all
  then have y: "1 < 1 / x" by simp
  have "\<lceil>1 / (2 * x)\<rceil> < \<lceil>1 / x\<rceil>"
  proof (cases "1 / x \<le> 2")
    case True
    then have "1 / (2 * x) \<le> 1" using x by (simp add: field_simps)
    then have "\<lceil>1 / (2 * x)\<rceil> \<le> 1" by (simp add: ceiling_le_iff)
    moreover from y have "1 < \<lceil>1 / x\<rceil>" by (subst less_ceiling_iff) linarith
    ultimately show ?thesis by linarith
  next
    case False
    then have "1 / (2 * x) \<le> 1 / x - 1" using x by (simp add: field_simps)
    then have "\<lceil>1 / (2 * x)\<rceil> \<le> \<lceil>1 / x - 1\<rceil>" by (rule ceiling_mono)
    then show ?thesis by simp
  qed
  moreover from y have "0 < \<lceil>1 / x\<rceil>" by (subst less_ceiling_iff) linarith
  ultimately show ?case by simp
qed

declare exponentUp.simps [simp del] exponentDown.simps [simp del]

definition binaryExponent :: "real \<Rightarrow> int" where
  "binaryExponent x = (if 1 \<le> \<bar>x\<bar> then exponentUp \<bar>x\<bar> else exponentDown \<bar>x\<bar>)"

text \<open>Rounding to the nearest integer, a tie going to the even one.\<close>

definition roundHalfEven :: "real \<Rightarrow> int" where
  "roundHalfEven x =
     (let f = \<lfloor>x\<rfloor>; d = x - of_int f
      in if d < 1 / 2 then f else if 1 / 2 < d then f + 1 else if even f then f else f + 1)"

text \<open>
  The limits of the format: the smallest exponent of a normal double, the spacing of the
  subnormal doubles, which every double is a multiple of, and the bound at which rounding
  overflows to an infinity.
\<close>

definition minNormalExponent :: int where
  "minNormalExponent = - 1022"

definition minQuantum :: real where
  "minQuantum = 2 powi (- 1074)"

definition overflowBound :: real where
  "overflowBound = 2 powi 1024"

text \<open>
  Rounding a real to the nearest double, ties to even: the value is rounded to a multiple of
  the spacing of the doubles of its exponent, which is 52 binary places below the exponent
  and never finer than the subnormal spacing; a result that reaches \<open>2 powi 1024\<close> is an
  infinity.
\<close>

definition roundDouble :: "real \<Rightarrow> double" where
  "roundDouble x =
     (if x = 0 then Finite 0
      else
        let e = max (binaryExponent x) minNormalExponent;
            q = 2 powi (e - 52);
            y = of_int (roundHalfEven (x / q)) * q
        in if overflowBound \<le> y then PosInf
           else if y \<le> - overflowBound then NegInf
           else Finite y)"

text \<open>
  A numeric literal of the source is the double nearest to it. An array length or a counter
  is an integer far below \<open>2 powi 53\<close>, which a double holds exactly.
\<close>

definition literal :: "real \<Rightarrow> double" where
  "literal x = roundDouble x"

definition ofNat :: "nat \<Rightarrow> double" where
  "ofNat n = Finite (real n)"

text \<open>The operators \<open>+\<close>, \<open>-\<close>, \<open>*\<close>, \<open>/\<close> and \<open>Math.sqrt\<close>, \<open>Math.min\<close>, \<open>Math.max\<close>.\<close>

fun dneg :: "double \<Rightarrow> double" where
  "dneg (Finite x) = Finite (- x)"
| "dneg PosInf = NegInf"
| "dneg NegInf = PosInf"
| "dneg NaN = NaN"

fun dadd :: "double \<Rightarrow> double \<Rightarrow> double" where
  "dadd NaN b = NaN"
| "dadd a NaN = NaN"
| "dadd PosInf NegInf = NaN"
| "dadd NegInf PosInf = NaN"
| "dadd PosInf b = PosInf"
| "dadd a PosInf = PosInf"
| "dadd NegInf b = NegInf"
| "dadd a NegInf = NegInf"
| "dadd (Finite x) (Finite y) = roundDouble (x + y)"

definition dsub :: "double \<Rightarrow> double \<Rightarrow> double" where
  "dsub a b = dadd a (dneg b)"

fun dmul :: "double \<Rightarrow> double \<Rightarrow> double" where
  "dmul NaN b = NaN"
| "dmul a NaN = NaN"
| "dmul (Finite x) (Finite y) = roundDouble (x * y)"
| "dmul (Finite x) PosInf = (if x = 0 then NaN else if 0 < x then PosInf else NegInf)"
| "dmul (Finite x) NegInf = (if x = 0 then NaN else if 0 < x then NegInf else PosInf)"
| "dmul PosInf (Finite y) = (if y = 0 then NaN else if 0 < y then PosInf else NegInf)"
| "dmul NegInf (Finite y) = (if y = 0 then NaN else if 0 < y then NegInf else PosInf)"
| "dmul PosInf PosInf = PosInf"
| "dmul PosInf NegInf = NegInf"
| "dmul NegInf PosInf = NegInf"
| "dmul NegInf NegInf = PosInf"

fun ddiv :: "double \<Rightarrow> double \<Rightarrow> double" where
  "ddiv NaN b = NaN"
| "ddiv a NaN = NaN"
| "ddiv (Finite x) (Finite y) =
     (if y = 0 then (if x = 0 then NaN else if 0 < x then PosInf else NegInf)
      else roundDouble (x / y))"
| "ddiv (Finite x) PosInf = Finite 0"
| "ddiv (Finite x) NegInf = Finite 0"
| "ddiv PosInf (Finite y) = (if 0 \<le> y then PosInf else NegInf)"
| "ddiv NegInf (Finite y) = (if 0 \<le> y then NegInf else PosInf)"
| "ddiv PosInf b = NaN"
| "ddiv NegInf b = NaN"

fun dsqrt :: "double \<Rightarrow> double" where
  "dsqrt (Finite x) = (if x < 0 then NaN else roundDouble (sqrt x))"
| "dsqrt PosInf = PosInf"
| "dsqrt NegInf = NaN"
| "dsqrt NaN = NaN"

text \<open>\<open>a < b\<close> and \<open>a <= b\<close> on numbers: false when either side is NaN.\<close>

fun dless :: "double \<Rightarrow> double \<Rightarrow> bool" where
  "dless NaN b = False"
| "dless a NaN = False"
| "dless (Finite x) (Finite y) = (x < y)"
| "dless (Finite x) PosInf = True"
| "dless (Finite x) NegInf = False"
| "dless PosInf b = False"
| "dless NegInf (Finite y) = True"
| "dless NegInf PosInf = True"
| "dless NegInf NegInf = False"


definition dmin :: "double \<Rightarrow> double \<Rightarrow> double" where
  "dmin a b = (if a = NaN \<or> b = NaN then NaN else if dless b a then b else a)"

definition dmax :: "double \<Rightarrow> double \<Rightarrow> double" where
  "dmax a b = (if a = NaN \<or> b = NaN then NaN else if dless a b then b else a)"

text \<open>
  A number that is not NaN and, when finite, is a multiple of the subnormal spacing, as
  every double is.
\<close>

definition onGrid :: "double \<Rightarrow> bool" where
  "onGrid d =
     (case d of
        Finite x \<Rightarrow> (\<exists>k::int. x = of_int k * minQuantum)
      | PosInf \<Rightarrow> True
      | NegInf \<Rightarrow> True
      | NaN \<Rightarrow> False)"

section \<open>Search scoring\<close>

text \<open>
  \<open>cosineLoop\<close> is the \<open>for\<close> loop of \<open>cosineSimilarity\<close>, with the three accumulators
  \<open>dotProduct\<close>, \<open>normA\<close>, \<open>normB\<close>; it runs only when the lengths agree. A component that
  was stored as \<open>null\<close> (JSON has no NaN and no infinity) multiplies as 0 and is \<open>Finite 0\<close>.
\<close>

function cosineLoop ::
  "double list \<Rightarrow> double list \<Rightarrow> nat \<Rightarrow> double \<times> double \<times> double
   \<Rightarrow> double \<times> double \<times> double" where
  "cosineLoop a b i (dotProduct, normA, normB) =
     (if i < length a
      then cosineLoop a b (Suc i)
             (dadd dotProduct (dmul (a ! i) (b ! i)),
              dadd normA (dmul (a ! i) (a ! i)),
              dadd normB (dmul (b ! i) (b ! i)))
      else (dotProduct, normA, normB))"
  by pat_completeness auto
termination
  by (relation "measure (\<lambda>(a, b, i, acc). length a - i)") auto

declare cosineLoop.simps [simp del]

definition cosineSimilarity :: "double list \<Rightarrow> double list \<Rightarrow> double" where
  "cosineSimilarity a b =
     (if length a \<noteq> length b then Finite 0
      else case cosineLoop a b 0 (Finite 0, Finite 0, Finite 0) of
        (dotProduct, normA, normB) \<Rightarrow>
          (let denominator = dmul (dsqrt normA) (dsqrt normB)
           in if denominator = Finite 0 then Finite 0 else ddiv dotProduct denominator))"

text \<open>The loop of \<open>keywordMatchScore\<close> over \<open>queryWords\<close>, with the counter \<open>matchCount\<close>.\<close>

fun countMatches :: "string \<Rightarrow> string list \<Rightarrow> nat \<Rightarrow> nat" where
  "countMatches textLower [] matchCount = matchCount"
| "countMatches textLower (word # rest) matchCount =
     countMatches textLower rest (if includesStr textLower word then matchCount + 1 else matchCount)"

definition queryWordsOf :: "string \<Rightarrow> string list" where
  "queryWordsOf query = filter (\<lambda>w. length w > 2) (splitWhitespace [] (toLowerCase query))"

definition keywordMatchScore :: "string \<Rightarrow> string \<Rightarrow> double" where
  "keywordMatchScore query text =
     (let queryWords = queryWordsOf query;
          textLower = toLowerCase text
      in if length queryWords = 0 then Finite 0
         else ddiv (ofNat (countMatches textLower queryWords 0)) (ofNat (length queryWords)))"

subsection \<open>Rows and results\<close>

datatype FileType = Image | Pdf

text \<open>
  A row of the join of \<open>files\<close> and \<open>file_vectors\<close>. The column \<open>id\<close> is the field
  \<open>file_id\<close>. The columns \<open>caption\<close> and \<open>thumbnail\<close> are nullable. \<open>embedding\<close> is the
  stored vector, after \<open>jsonToVector\<close>; the engine only stores what \<open>vectorToJson\<close> wrote, so
  parsing it back does not fail.
\<close>

record FileRecord =
  file_id :: nat
  uri :: string
  filename :: string
  file_type :: FileType
  caption :: "string option"
  thumbnail :: "string option"
  created_at :: nat

record DbRow = FileRecord +
  embedding :: "double list"

record SearchResult = FileRecord +
  distance :: double
  similarity :: double

definition SEARCH_RESULTS_LIMIT :: nat where
  "SEARCH_RESULTS_LIMIT = 10"

text \<open>\<open>x || ''\<close> on a nullable string column.\<close>

definition orEmpty :: "string option \<Rightarrow> string" where
  "orEmpty x = (case x of None \<Rightarrow> [] | Some t \<Rightarrow> t)"

text \<open>The body of the \<open>map\<close> callback of \<open>executeSearch\<close>.\<close>

definition semanticScoreOf :: "double list \<Rightarrow> DbRow \<Rightarrow> double" where
  "semanticScoreOf queryEmbedding row = cosineSimilarity queryEmbedding (embedding row)"

definition keywordScoreOf :: "string \<Rightarrow> DbRow \<Rightarrow> double" where
  "keywordScoreOf query row =
     (let captionKeywordScore = keywordMatchScore query (orEmpty (caption row));
          filenameKeywordScore = keywordMatchScore query (filename row)
      in dmax captionKeywordScore filenameKeywordScore)"

definition hybridScoreOf :: "string \<Rightarrow> double list \<Rightarrow> DbRow \<Rightarrow> double" where
  "hybridScoreOf query queryEmbedding row =
     dadd (dmul (semanticScoreOf queryEmbedding row) (literal (6 / 10)))
          (dmul (keywordScoreOf query row) (literal (4 / 10)))"

definition scoreRow :: "string \<Rightarrow> double list \<Rightarrow> DbRow \<Rightarrow> SearchResult" where
  "scoreRow query queryEmbedding row =
     (let displaySimilarity =
            dmin (literal 1) (dmul (hybridScoreOf query queryEmbedding row) (literal (15 / 10)))
      in \<lparr> file_id = file_id row, uri = uri row, filename = filename row,
           file_type = file_type row, caption = caption row, thumbnail = thumbnail row,
           created_at = created_at row,
           distance = dsub (literal 1) displaySimilarity, similarity = displaySimilarity \<rparr>)"


subsection \<open>Sorting and truncation\<close>

text \<open>
  \<open>scored.sort((a, b) => b.similarity - a.similarity)\<close>. The sort puts \<open>b\<close> before \<open>a\<close> when
  the comparator returns a number greater than 0 for \<open>(a, b)\<close>, and treats any other
  result, NaN too, as leaving the pair in order. ECMAScript (2019 and later) requires the
  sort to be stable, which fixes its result whenever the comparator orders the array
  consistently: \<open>stableSort\<close> is then that result, computed by insertion. When a similarity
  is NaN the comparator is not consistent and ECMAScript leaves the order of the result to
  the implementation: the order is then the one the engine's collaborator \<open>engineOrder\<close>
  gives, which has to be a rearrangement of the array.
\<close>

definition compareFn :: "SearchResult \<Rightarrow> SearchResult \<Rightarrow> double" where
  "compareFn a b = dsub (similarity b) (similarity a)"

fun insertSorted :: "SearchResult \<Rightarrow> SearchResult list \<Rightarrow> SearchResult list" where
  "insertSorted x [] = [x]"
| "insertSorted x (y # ys) =
     (if dless (Finite 0) (compareFn x y) then y # insertSorted x ys else x # y # ys)"

fun stableSort :: "SearchResult list \<Rightarrow> SearchResult list" where
  "stableSort [] = []"
| "stableSort (x # xs) = insertSorted x (stableSort xs)"

definition sortBySimilarity ::
  "(SearchResult list \<Rightarrow> SearchResult list) \<Rightarrow> SearchResult list \<Rightarrow> SearchResult list" where
  "sortBySimilarity engineOrder scored =
     (if list_all (\<lambda>r. similarity r \<noteq> NaN) scored then stableSort scored
      else if mset (engineOrder scored) = mset scored then engineOrder scored
      else scored)"

text \<open>The part of \<open>executeSearch\<close> after the rows are fetched.\<close>

definition rankRows ::
  "(SearchResult list \<Rightarrow> SearchResult list) \<Rightarrow> string \<Rightarrow> double list \<Rightarrow> DbRow list
   \<Rightarrow> SearchResult list" where
  "rankRows engineOrder query queryEmbedding rows =
     (if length rows = 0 then []
      else let scored = map (scoreRow query queryEmbedding) rows
           in take SEARCH_RESULTS_LIMIT (sortBySimilarity engineOrder scored))"

subsection \<open>The specification's words for the two scores\<close>

text \<open>
  The cosine similarity of two real vectors of one dimension: the dot product over the
  product of the Euclidean norms, and 0 where a norm is 0.
\<close>

definition spec_cosine :: "real list \<Rightarrow> real list \<Rightarrow> real" where
  "spec_cosine a b =
     (let dot = (\<Sum>i<length a. a ! i * b ! i);
          na = sqrt (\<Sum>i<length a. (a ! i)\<^sup>2);
          nb = sqrt (\<Sum>i<length b. (b ! i)\<^sup>2)
      in if na * nb = 0 then 0 else dot / (na * nb))"

text \<open>
  The same formula evaluated in double arithmetic: each sum runs over the products in the
  order of the index, every operation rounds, and the result is 0 when the denominator came
  out as 0.
\<close>

definition dotDouble :: "double list \<Rightarrow> double list \<Rightarrow> double" where
  "dotDouble a b = foldl dadd (Finite 0) (map2 dmul a b)"

definition spec_cosineDouble :: "double list \<Rightarrow> double list \<Rightarrow> double" where
  "spec_cosineDouble a b =
     (let denominator = dmul (dsqrt (dotDouble a a)) (dsqrt (dotDouble b b))
      in if denominator = Finite 0 then Finite 0 else ddiv (dotDouble a b) denominator)"

text \<open>
  The whitespace-separated tokens of a string: its maximal runs of characters that are not
  whitespace.
\<close>

function spec_tokens :: "string \<Rightarrow> string list" where
  "spec_tokens s =
     (case dropWhile isWhitespace s of
        [] \<Rightarrow> []
      | c # cs \<Rightarrow> (c # takeWhile (\<lambda>x. \<not> isWhitespace x) cs)
                  # spec_tokens (dropWhile (\<lambda>x. \<not> isWhitespace x) cs))"
  by pat_completeness auto
termination
proof (relation "measure length", goal_cases)
  case 1
  show ?case by simp
next
  case (2 s c cs)
  have "length (dropWhile (\<lambda>x. \<not> isWhitespace x) cs) \<le> length cs"
    by (rule length_dropWhile_le)
  moreover have "length (dropWhile isWhitespace s) \<le> length s"
    by (rule length_dropWhile_le)
  ultimately show ?case using 2 by simp
qed

declare spec_tokens.simps [simp del]

text \<open>
  Keyword overlap: the fraction of the case-folded query tokens longer than 2 that are
  substrings of the case-folded text, and 0 when there is no such token. The fraction is a
  real number; the engine holds it rounded to a double.
\<close>

definition spec_keywordOverlap :: "string \<Rightarrow> string \<Rightarrow> real" where
  "spec_keywordOverlap query text =
     (let tokens = filter (\<lambda>w. length w > 2) (spec_tokens (toLowerCase query))
      in if tokens = [] then 0
         else real (length (filter (\<lambda>w. sublist w (toLowerCase text)) tokens))
              / real (length tokens))"


section \<open>The engine\<close>

subsection \<open>More string helpers of the pipeline\<close>

text \<open>\<open>s.replace(pat, '')\<close> with a string pattern: the first occurrence is removed.\<close>

fun removeFirst :: "string \<Rightarrow> string \<Rightarrow> string" where
  "removeFirst pat [] = []"
| "removeFirst pat (c # cs) =
     (if prefix pat (c # cs) then drop (length pat) (c # cs) else c # removeFirst pat cs)"

text \<open>
  \<open>s.replace(/pat/g, '')\<close> for a literal, non-empty pattern: every occurrence is removed,
  left to right; \<open>skip\<close> counts the characters of the current occurrence still to drop.
\<close>

fun removeEvery :: "string \<Rightarrow> nat \<Rightarrow> string \<Rightarrow> string" where
  "removeEvery pat skip [] = []"
| "removeEvery pat (Suc k) (c # cs) = removeEvery pat k cs"
| "removeEvery pat 0 (c # cs) =
     (if prefix pat (c # cs) then removeEvery pat (length pat - 1) cs
      else c # removeEvery pat 0 cs)"

text \<open>\<open>name.replace(/\.pdf$/i, '')\<close>, \<open>name.replace(/\.[^.]+$/, '')\<close> and \<open>.replace(/[_-]/g, ' ')\<close>.\<close>

definition stripPdfSuffix :: "string \<Rightarrow> string" where
  "stripPdfSuffix name =
     (if 4 \<le> length name \<and> toLowerCase (drop (length name - 4) name) = ''.pdf''
      then take (length name - 4) name else name)"

definition stripExtension :: "string \<Rightarrow> string" where
  "stripExtension name =
     (let ext = rev (takeWhile (\<lambda>c. c \<noteq> CHR ''.'') (rev name))
      in if ext \<noteq> [] \<and> length ext < length name
         then take (length name - length ext - 1) name else name)"

definition separatorsToSpaces :: "string \<Rightarrow> string" where
  "separatorsToSpaces s = map (\<lambda>c. if c = CHR ''_'' \<or> c = CHR ''-'' then CHR '' '' else c) s"

subsection \<open>State\<close>

datatype ProcessingPhase =
  Idle | Selecting | Loading_vision | Captioning | Unloading_vision
  | Loading_embedding | Embedding | Saving | Complete | Error

text \<open>
  A progress snapshot as \<open>reportProgress\<close> builds it. Its message and its percentage are
  display values computed from these three fields and are left out.
\<close>

record ProcessingProgress =
  phase :: ProcessingPhase
  current :: nat
  total :: nat

datatype Err =
  VisionModelNotLoaded | EmbeddingModelNotLoaded | DatabaseNotInitialized
  | NullReference | External string

text \<open>
  \<open>SelectedFile\<close>, \<open>CaptionedFile\<close> and \<open>EmbeddedFile\<close>. Their fields carry the prefixes
  \<open>sf_\<close>, \<open>cf_\<close> and \<open>ef_\<close> where the source's name is taken by a row of the database or
  by a constant of the logic.
\<close>

record SelectedFile =
  sf_uri :: string
  sf_name :: string
  sf_type :: FileType
  mimeType :: string
  sf_size :: nat

record CaptionedFile =
  cf_file :: SelectedFile
  cf_caption :: string
  cf_thumbnail :: "string option"

record EmbeddedFile = CaptionedFile +
  ef_embedding :: "double list"

text \<open>
  A \<open>CactusLM\<close> instance: the model it was created for, and whether \<open>init()\<close> has completed
  on it.
\<close>

record CactusLM =
  model :: string
  contextSize :: nat
  initialized :: bool

text \<open>The two tables of the database, and the last id \<open>AUTOINCREMENT\<close> gave out.\<close>

record Store =
  files :: "FileRecord list"
  file_vectors :: "(nat \<times> double list) list"
  lastInsertId :: nat

text \<open>
  The fields of \<open>MemoryEngine\<close> that model loading and indexing use. \<open>db\<close> tells whether the
  handle is set; the tables live in \<open>store\<close>. \<open>embeddingModelLoadPromise\<close> tells whether the
  field holds a promise. Two fields record what can be observed from outside: \<open>reported\<close> is
  the sequence of snapshots handed to \<open>reportProgress\<close>, \<open>embeddingInits\<close> counts the calls of
  \<open>init()\<close> on an embedding model.
\<close>

record Engine =
  db :: bool
  store :: Store
  visionModel :: "CactusLM option"
  embeddingModel :: "CactusLM option"
  isInitialized :: bool
  embeddingModelLoading :: bool
  embeddingModelLoadPromise :: bool
  selectedVisionModel :: string
  reported :: "ProcessingProgress list"
  embeddingInits :: nat

text \<open>
  The collaborators the engine calls: each field is the outcome of one external call, an
  error being the exception it throws. Download outcomes carry the rounded percentages the
  progress callback receives. \<open>visionDestroy\<close> and \<open>embeddingDestroy\<close> are the outcomes of
  \<open>destroy()\<close> on the two models. \<open>sortUnordered\<close> is the order in which the JavaScript
  engine's sort leaves an array that its comparator does not order consistently. \<open>delay\<close>
  and the clean-up of temporary files, whose failures the source ignores, have no effect on
  the state and are not modelled.
\<close>

record Env =
  openDatabase :: "Err option"
  getModels :: "Err + bool"
  visionDownload :: "nat list \<times> Err option"
  visionDownloadRetry :: "nat list \<times> Err option"
  visionInit :: "Err option"
  visionDestroy :: "Err option"
  resizeImage :: "string \<Rightarrow> string option"
  copyFile :: "string \<Rightarrow> string \<Rightarrow> Err + string"
  complete :: "string \<Rightarrow> Err + string"
  visionReset :: "nat \<Rightarrow> Err option"
  extractText :: "string \<Rightarrow> Err + string"
  embeddingDownload :: "nat list \<times> Err option"
  embeddingInit :: "Err option"
  embeddingDestroy :: "Err option"
  embed :: "string \<Rightarrow> Err + double list"
  insertFile :: "SelectedFile \<Rightarrow> Err option"
  insertVector :: "SelectedFile \<Rightarrow> Err option"
  selectRows :: "Err option"
  sortUnordered :: "SearchResult list \<Rightarrow> SearchResult list"
  now :: nat

definition DEFAULT_VISION_MODEL :: string where
  "DEFAULT_VISION_MODEL = ''lfm2-vl-450m''"

definition EMBEDDING_MODEL :: string where
  "EMBEDDING_MODEL = ''nomic2-embed-300m''"

definition CONTEXT_SIZE :: nat where
  "CONTEXT_SIZE = 128"

definition EMBEDDING_CONTEXT_SIZE :: nat where
  "EMBEDDING_CONTEXT_SIZE = 1024"

definition USE_VISION_MODEL :: bool where
  "USE_VISION_MODEL = True"

text \<open>A freshly constructed engine.\<close>

definition newEngine :: Engine where
  "newEngine =
     \<lparr> db = False,
       store = \<lparr> files = [], file_vectors = [], lastInsertId = 0 \<rparr>,
       visionModel = None, embeddingModel = None, isInitialized = False,
       embeddingModelLoading = False, embeddingModelLoadPromise = False,
       selectedVisionModel = DEFAULT_VISION_MODEL, reported = [], embeddingInits = 0 \<rparr>"

subsection \<open>Initialisation and progress\<close>

definition initialize :: "Env \<Rightarrow> Engine \<Rightarrow> (Err + unit) \<times> Engine" where
  "initialize env s =
     (if isInitialized s then (Inr (), s)
      else case openDatabase env of
             Some e \<Rightarrow> (Inl e, s)
           | None \<Rightarrow> (Inr (), s\<lparr>db := True, isInitialized := True\<rparr>))"

definition reportProgress :: "ProcessingPhase \<Rightarrow> nat \<Rightarrow> nat \<Rightarrow> Engine \<Rightarrow> Engine" where
  "reportProgress ph cur tot s =
     s\<lparr>reported := reported s @ [\<lparr>phase = ph, current = cur, total = tot\<rparr>]\<rparr>"

text \<open>The progress callback of a download, once for each percentage it is called with.\<close>

fun reportDownload :: "ProcessingPhase \<Rightarrow> nat list \<Rightarrow> Engine \<Rightarrow> Engine" where
  "reportDownload ph [] s = s"
| "reportDownload ph (t # ts) s = reportDownload ph ts (reportProgress ph t 100 s)"

subsection \<open>Model lifecycle\<close>

definition download :: "ProcessingPhase \<Rightarrow> nat list \<times> Err option \<Rightarrow> Engine \<Rightarrow> (Err + unit) \<times> Engine" where
  "download ph outcome s =
     (let s1 = reportDownload ph (fst outcome) s
      in case snd outcome of Some e \<Rightarrow> (Inl e, s1) | None \<Rightarrow> (Inr (), s1))"

text \<open>
  \<open>loadVisionModel\<close>. The instance is stored in \<open>visionModel\<close> before it is downloaded and
  initialised. \<open>visionCheckAndDownload\<close> is the inner \<open>try\<close> block, which downloads the model
  unless \<open>getModels\<close> lists it as downloaded; \<open>visionEnsureDownloaded\<close> adds its \<open>catch\<close>,
  which answers any failure in that block with a download. Any later failure is thrown on,
  the field staying set.
\<close>

definition visionCheckAndDownload :: "Env \<Rightarrow> Engine \<Rightarrow> (Err + unit) \<times> Engine" where
  "visionCheckAndDownload env s =
     (case getModels env of
        Inl e \<Rightarrow> (Inl e, s)
      | Inr isDownloaded \<Rightarrow>
          if isDownloaded then (Inr (), s)
          else download Loading_vision (visionDownload env) s)"

definition visionEnsureDownloaded :: "Env \<Rightarrow> Engine \<Rightarrow> (Err + unit) \<times> Engine" where
  "visionEnsureDownloaded env s =
     (case visionCheckAndDownload env s of
        (Inl e, s1) \<Rightarrow> download Loading_vision (visionDownloadRetry env) s1
      | (Inr u, s1) \<Rightarrow> (Inr (), s1))"

definition loadVisionModel :: "Env \<Rightarrow> Engine \<Rightarrow> (Err + unit) \<times> Engine" where
  "loadVisionModel env s =
     (let modelToLoad = selectedVisionModel s;
          s1 = reportProgress Loading_vision 0 1 s;
          s2 = s1\<lparr>visionModel :=
                   Some \<lparr>model = modelToLoad, contextSize = CONTEXT_SIZE, initialized = False\<rparr>\<rparr>
      in case visionEnsureDownloaded env s2 of
           (Inl e, s3) \<Rightarrow> (Inl e, s3)
         | (Inr u, s3) \<Rightarrow>
             (case visionInit env of
                Some e \<Rightarrow> (Inl e, s3)
              | None \<Rightarrow>
                  (Inr (),
                   reportProgress Loading_vision 1 1
                     (s3\<lparr>visionModel :=
                          map_option (\<lambda>m. m\<lparr>initialized := True\<rparr>) (visionModel s3)\<rparr>))))"

text \<open>
  \<open>unloadVisionModel\<close> and \<open>unloadEmbeddingModel\<close>: nothing happens when the field is unset;
  otherwise \<open>destroy()\<close> is awaited, and when it fails the error is thrown on with the field
  still set and, for the vision model, the second report left out.
\<close>

definition unloadVisionModel :: "Env \<Rightarrow> Engine \<Rightarrow> (Err + unit) \<times> Engine" where
  "unloadVisionModel env s =
     (if visionModel s \<noteq> None then
        let s1 = reportProgress Unloading_vision 0 1 s
        in case visionDestroy env of
             Some e \<Rightarrow> (Inl e, s1)
           | None \<Rightarrow> (Inr (), reportProgress Unloading_vision 1 1 (s1\<lparr>visionModel := None\<rparr>))
      else (Inr (), s))"

definition unloadEmbeddingModel :: "Env \<Rightarrow> Engine \<Rightarrow> (Err + unit) \<times> Engine" where
  "unloadEmbeddingModel env s =
     (if embeddingModel s \<noteq> None then
        case embeddingDestroy env of
          Some e \<Rightarrow> (Inl e, s)
        | None \<Rightarrow> (Inr (), s\<lparr>embeddingModel := None\<rparr>)
      else (Inr (), s))"

text \<open>
  \<open>loadEmbeddingModel\<close> in two parts. \<open>loadEmbeddingModel_begin\<close> is the call up to its first
  \<open>await\<close>: it returns at once when the field \<open>embeddingModel\<close> is set, waits for the load in
  flight when the loading flag and the promise are set, and otherwise starts a load, which
  stores the new instance in \<open>embeddingModel\<close> before its download begins.
  \<open>loadEmbeddingModel_finish\<close> is the rest of the started load: download, \<open>init()\<close>, the
  \<open>catch\<close> and the \<open>finally\<close>. Other calls of the engine can run between the two parts.
\<close>

datatype LoadEntry = AlreadyLoaded | WaitInFlight | Started

definition loadEmbeddingModel_begin :: "Engine \<Rightarrow> LoadEntry \<times> Engine" where
  "loadEmbeddingModel_begin s =
     (if embeddingModel s \<noteq> None then (AlreadyLoaded, s)
      else if embeddingModelLoading s \<and> embeddingModelLoadPromise s then (WaitInFlight, s)
      else
        let s1 = s\<lparr>embeddingModelLoading := True\<rparr>;
            s2 = reportProgress Loading_embedding 0 1 s1;
            s3 = s2\<lparr>embeddingModel :=
                     Some \<lparr>model = EMBEDDING_MODEL, contextSize = EMBEDDING_CONTEXT_SIZE,
                           initialized = False\<rparr>\<rparr>
        in (Started, s3\<lparr>embeddingModelLoadPromise := True\<rparr>))"

definition loadEmbeddingModel_finish :: "Env \<Rightarrow> Engine \<Rightarrow> (Err + unit) \<times> Engine" where
  "loadEmbeddingModel_finish env s =
     (case download Loading_embedding (embeddingDownload env) s of
        (Inl e, s1) \<Rightarrow> (Inl e, s1\<lparr>embeddingModel := None, embeddingModelLoading := False\<rparr>)
      | (Inr u, s1) \<Rightarrow>
          (case embeddingModel s1 of
             None \<Rightarrow> (Inl NullReference, s1\<lparr>embeddingModel := None, embeddingModelLoading := False\<rparr>)
           | Some m \<Rightarrow>
               let s2 = s1\<lparr>embeddingInits := Suc (embeddingInits s1)\<rparr>
               in (case embeddingInit env of
                     Some e \<Rightarrow> (Inl e, s2\<lparr>embeddingModel := None, embeddingModelLoading := False\<rparr>)
                   | None \<Rightarrow>
                       (Inr (),
                        (reportProgress Loading_embedding 1 1
                           (s2\<lparr>embeddingModel := Some (m\<lparr>initialized := True\<rparr>)\<rparr>))
                          \<lparr>embeddingModelLoading := False\<rparr>))))"

text \<open>
  \<open>loadEmbeddingModel\<close> run without another call in between: a caller that waits for the
  load in flight gets that load's outcome.
\<close>

definition loadEmbeddingModel :: "Env \<Rightarrow> Engine \<Rightarrow> (Err + unit) \<times> Engine" where
  "loadEmbeddingModel env s =
     (case loadEmbeddingModel_begin s of
        (AlreadyLoaded, s1) \<Rightarrow> (Inr (), s1)
      | (WaitInFlight, s1) \<Rightarrow> loadEmbeddingModel_finish env s1
      | (Started, s1) \<Rightarrow> loadEmbeddingModel_finish env s1)"


subsection \<open>Captioning\<close>

text \<open>\<open>resizeImageForVision\<close> returns the resized file, or the original \<open>uri\<close> when resizing fails.\<close>

definition resizeImageForVision :: "Env \<Rightarrow> string \<Rightarrow> string" where
  "resizeImageForVision env u = (case resizeImage env u of Some path \<Rightarrow> path | None \<Rightarrow> u)"

definition getReadableFilePath :: "Env \<Rightarrow> string \<Rightarrow> string \<Rightarrow> Err + string" where
  "getReadableFilePath env u fname =
     (if prefix ''/'' u \<or> prefix ''file://'' u then Inr (removeFirst ''file://'' u)
      else copyFile env u fname)"

text \<open>The two steps of the image loop that turn a selected file into a path to read.\<close>

definition imagePathOf :: "Env \<Rightarrow> SelectedFile \<Rightarrow> Err + string" where
  "imagePathOf env file =
     (let resizedUri = resizeImageForVision env (sf_uri file)
      in getReadableFilePath env resizedUri (sf_name file))"

text \<open>
  \<open>captionImage\<close>: the check of the model is outside the \<open>try\<close>, the call of \<open>complete\<close> is
  inside it, and the \<open>catch\<close> answers with a caption made from the path.
\<close>

definition fallbackCaption :: "string \<Rightarrow> string" where
  "fallbackCaption imagePath =
     (let fname = (if lastSegment imagePath = [] then ''unknown'' else lastSegment imagePath)
      in ''Image file: '' @ fname)"

definition captionImage :: "Env \<Rightarrow> string \<Rightarrow> Engine \<Rightarrow> Err + string" where
  "captionImage env imagePath s =
     (if visionModel s = None then Inl VisionModelNotLoaded
      else case complete env imagePath of
             Inr response \<Rightarrow> Inr (trim (removeEvery ''<|im_end|>'' 0 (trim response)))
           | Inl e \<Rightarrow> Inr (fallbackCaption imagePath))"

text \<open>
  The loop over \<open>images\<close> with the vision model: \<open>n\<close> is \<open>images.length\<close>, \<open>i\<close> the index of
  the head of the images still to do, \<open>captionedFiles\<close> the array built so far.
\<close>

fun captionLoop ::
  "Env \<Rightarrow> nat \<Rightarrow> nat \<Rightarrow> SelectedFile list \<Rightarrow> CaptionedFile list \<Rightarrow> Engine
   \<Rightarrow> (Err + CaptionedFile list) \<times> Engine" where
  "captionLoop env n i [] captionedFiles s = (Inr captionedFiles, s)"
| "captionLoop env n i (file # rest) captionedFiles s =
     (let s1 = reportProgress Captioning (i + 1) n s
      in case imagePathOf env file of
           Inl e \<Rightarrow> (Inl e, s1)
         | Inr imagePath \<Rightarrow>
             (case captionImage env imagePath s1 of
                Inl e \<Rightarrow> (Inl e, s1)
              | Inr cap \<Rightarrow>
                  let captionedFiles' =
                        captionedFiles @ [\<lparr>cf_file = file, cf_caption = cap, cf_thumbnail = None\<rparr>]
                  in (case (if visionModel s1 \<noteq> None then visionReset env i else None) of
                        Some e \<Rightarrow> (Inl e, s1)
                      | None \<Rightarrow> captionLoop env n (i + 1) rest captionedFiles' s1)))"

text \<open>The loop over \<open>images\<close> when \<open>USE_VISION_MODEL\<close> is off: captions from the file names.\<close>

fun filenameCaptionLoop ::
  "nat \<Rightarrow> nat \<Rightarrow> SelectedFile list \<Rightarrow> CaptionedFile list \<Rightarrow> Engine
   \<Rightarrow> CaptionedFile list \<times> Engine" where
  "filenameCaptionLoop n i [] captionedFiles s = (captionedFiles, s)"
| "filenameCaptionLoop n i (file # rest) captionedFiles s =
     (let s1 = reportProgress Captioning (i + 1) n s;
          cleanName = separatorsToSpaces (stripExtension (sf_name file));
          cap = ''Image: '' @ cleanName
      in filenameCaptionLoop n (i + 1) rest
           (captionedFiles @ [\<lparr>cf_file = file, cf_caption = cap, cf_thumbnail = None\<rparr>]) s1)"

text \<open>Phase 1 of \<open>indexFiles\<close>.\<close>

definition imagePhase ::
  "Env \<Rightarrow> SelectedFile list \<Rightarrow> Engine \<Rightarrow> (Err + CaptionedFile list) \<times> Engine" where
  "imagePhase env images s =
     (if length images > 0 then
        if USE_VISION_MODEL then
          case (if embeddingModel s \<noteq> None then unloadEmbeddingModel env s else (Inr (), s)) of
            (Inl e, s1) \<Rightarrow> (Inl e, s1)
          | (Inr u, s1) \<Rightarrow>
              (case loadVisionModel env s1 of
                 (Inl e, s2) \<Rightarrow> (Inl e, s2)
               | (Inr u, s2) \<Rightarrow>
                   (case captionLoop env (length images) 0 images [] s2 of
                      (Inl e, s3) \<Rightarrow> (Inl e, s3)
                    | (Inr captionedFiles, s3) \<Rightarrow>
                        (case unloadVisionModel env s3 of
                           (Inl e, s4) \<Rightarrow> (Inl e, s4)
                         | (Inr u, s4) \<Rightarrow> (Inr captionedFiles, s4))))
        else
          (case filenameCaptionLoop (length images) 0 images [] s of
             (captionedFiles, s1) \<Rightarrow> (Inr captionedFiles, s1))
      else (Inr [], s))"

text \<open>\<open>extractPdfText\<close> answers a failure of the extractor with the empty string.\<close>

definition extractPdfText :: "Env \<Rightarrow> string \<Rightarrow> string" where
  "extractPdfText env u = (case extractText env u of Inr t \<Rightarrow> t | Inl e \<Rightarrow> [])"

definition generatePdfCaption :: "Env \<Rightarrow> SelectedFile \<Rightarrow> string" where
  "generatePdfCaption env file =
     (let extractedText = extractPdfText env (sf_uri file);
          cleanName = separatorsToSpaces (stripPdfSuffix (sf_name file))
      in if extractedText \<noteq> [] \<and> length extractedText > 20
         then ''PDF: '' @ cleanName @ ''. Content: '' @ extractedText
         else ''PDF document: '' @ cleanName)"

text \<open>Phase 2: \<open>m\<close> is \<open>images.length\<close>, \<open>totalFiles\<close> is \<open>files.length\<close>.\<close>

fun pdfLoop ::
  "Env \<Rightarrow> nat \<Rightarrow> nat \<Rightarrow> nat \<Rightarrow> SelectedFile list \<Rightarrow> CaptionedFile list \<Rightarrow> Engine
   \<Rightarrow> CaptionedFile list \<times> Engine" where
  "pdfLoop env m totalFiles i [] captionedFiles s = (captionedFiles, s)"
| "pdfLoop env m totalFiles i (file # rest) captionedFiles s =
     (let s1 = reportProgress Captioning (m + i + 1) totalFiles s;
          cap = generatePdfCaption env file
      in pdfLoop env m totalFiles (i + 1) rest
           (captionedFiles @ [\<lparr>cf_file = file, cf_caption = cap, cf_thumbnail = None\<rparr>]) s1)"

text \<open>Phases 1 and 2 together: the captioned files, images first.\<close>

definition captionPhases ::
  "Env \<Rightarrow> SelectedFile list \<Rightarrow> Engine \<Rightarrow> (Err + CaptionedFile list) \<times> Engine" where
  "captionPhases env fs s =
     (let images = filter (\<lambda>f. sf_type f = Image) fs;
          pdfs = filter (\<lambda>f. sf_type f = Pdf) fs;
          totalFiles = length fs
      in case imagePhase env images s of
           (Inl e, s1) \<Rightarrow> (Inl e, s1)
         | (Inr captionedFiles, s1) \<Rightarrow>
             (case pdfLoop env (length images) totalFiles 0 pdfs captionedFiles s1 of
                (captionedFiles', s2) \<Rightarrow> (Inr captionedFiles', s2)))"

subsection \<open>Embedding and saving\<close>

definition generateEmbedding :: "Env \<Rightarrow> string \<Rightarrow> Engine \<Rightarrow> Err + double list" where
  "generateEmbedding env txt s =
     (if embeddingModel s = None then Inl EmbeddingModelNotLoaded else embed env txt)"

text \<open>The loop of phase 3: \<open>n\<close> is \<open>captionedFiles.length\<close>.\<close>

fun embeddingLoop ::
  "Env \<Rightarrow> nat \<Rightarrow> nat \<Rightarrow> CaptionedFile list \<Rightarrow> EmbeddedFile list \<Rightarrow> Engine
   \<Rightarrow> (Err + EmbeddedFile list) \<times> Engine" where
  "embeddingLoop env n i [] embeddedFiles s = (Inr embeddedFiles, s)"
| "embeddingLoop env n i (captioned # rest) embeddedFiles s =
     (let s1 = reportProgress Embedding (i + 1) n s
      in case generateEmbedding env (cf_caption captioned) s1 of
           Inl e \<Rightarrow> (Inl e, s1)
         | Inr v \<Rightarrow>
             embeddingLoop env n (i + 1) rest
               (embeddedFiles @
                  [\<lparr>cf_file = cf_file captioned, cf_caption = cf_caption captioned,
                    cf_thumbnail = cf_thumbnail captioned, ef_embedding = v\<rparr>]) s1)"

text \<open>
  \<open>saveFileToDatabase\<close>: the row of \<open>files\<close> is inserted first and gets the next id; the row of
  \<open>file_vectors\<close> is inserted after it.
\<close>

definition saveFileToDatabase :: "Env \<Rightarrow> EmbeddedFile \<Rightarrow> Engine \<Rightarrow> (Err + unit) \<times> Engine" where
  "saveFileToDatabase env embedded s =
     (if \<not> db s then (Inl DatabaseNotInitialized, s)
      else case insertFile env (cf_file embedded) of
             Some e \<Rightarrow> (Inl e, s)
           | None \<Rightarrow>
               let st = store s;
                   fileId = Suc (lastInsertId st);
                   row = \<lparr> file_id = fileId, uri = sf_uri (cf_file embedded),
                           filename = sf_name (cf_file embedded),
                           file_type = sf_type (cf_file embedded),
                           caption = Some (cf_caption embedded),
                           thumbnail = cf_thumbnail embedded, created_at = now env \<rparr>;
                   s1 = s\<lparr>store := st\<lparr>files := files st @ [row], lastInsertId := fileId\<rparr>\<rparr>
               in (case insertVector env (cf_file embedded) of
                     Some e \<Rightarrow> (Inl e, s1)
                   | None \<Rightarrow>
                       (Inr (),
                        s1\<lparr>store := (store s1)\<lparr>file_vectors :=
                              file_vectors (store s1) @ [(fileId, ef_embedding embedded)]\<rparr>\<rparr>)))"

text \<open>The loop of phase 4.\<close>

fun saveLoop ::
  "Env \<Rightarrow> nat \<Rightarrow> nat \<Rightarrow> EmbeddedFile list \<Rightarrow> Engine \<Rightarrow> (Err + unit) \<times> Engine" where
  "saveLoop env n i [] s = (Inr (), s)"
| "saveLoop env n i (embedded # rest) s =
     (case saveFileToDatabase env embedded s of
        (Inl e, s1) \<Rightarrow> (Inl e, s1)
      | (Inr u, s1) \<Rightarrow> saveLoop env n (i + 1) rest (reportProgress Saving (i + 1) n s1))"

text \<open>Phase 3: the embedder is loaded, then every caption is embedded.\<close>

definition embeddingPhase ::
  "Env \<Rightarrow> CaptionedFile list \<Rightarrow> Engine \<Rightarrow> (Err + EmbeddedFile list) \<times> Engine" where
  "embeddingPhase env captionedFiles s =
     (case loadEmbeddingModel env s of
        (Inl e, s1) \<Rightarrow> (Inl e, s1)
      | (Inr u, s1) \<Rightarrow> embeddingLoop env (length captionedFiles) 0 captionedFiles [] s1)"

text \<open>Phases 4 and 5.\<close>

definition savingPhase ::
  "Env \<Rightarrow> nat \<Rightarrow> EmbeddedFile list \<Rightarrow> Engine \<Rightarrow> (Err + unit) \<times> Engine" where
  "savingPhase env totalFiles embeddedFiles s =
     (let s1 = reportProgress Saving 0 (length embeddedFiles) s
      in case saveLoop env (length embeddedFiles) 0 embeddedFiles s1 of
           (Inl e, s2) \<Rightarrow> (Inl e, s2)
         | (Inr u, s2) \<Rightarrow> (Inr (), reportProgress Complete totalFiles totalFiles s2))"

subsection \<open>indexFiles\<close>

text \<open>The body of the \<open>try\<close> block.\<close>

definition indexBody :: "Env \<Rightarrow> SelectedFile list \<Rightarrow> Engine \<Rightarrow> (Err + unit) \<times> Engine" where
  "indexBody env fs s =
     (case captionPhases env fs s of
        (Inl e, s1) \<Rightarrow> (Inl e, s1)
      | (Inr captionedFiles, s1) \<Rightarrow>
          (case embeddingPhase env captionedFiles s1 of
             (Inl e, s2) \<Rightarrow> (Inl e, s2)
           | (Inr embeddedFiles, s2) \<Rightarrow> savingPhase env (length fs) embeddedFiles s2))"

text \<open>
  The \<open>catch\<close> block: report \<open>error\<close>, unload the vision model, unload the embedding
  model, throw the error again. A \<open>destroy()\<close> that fails inside it ends the block with its
  own error.
\<close>

definition indexCatch :: "Env \<Rightarrow> Err \<Rightarrow> Engine \<Rightarrow> (Err + unit) \<times> Engine" where
  "indexCatch env e s =
     (case unloadVisionModel env (reportProgress Error 0 0 s) of
        (Inl e1, s1) \<Rightarrow> (Inl e1, s1)
      | (Inr u, s1) \<Rightarrow>
          (case unloadEmbeddingModel env s1 of
             (Inl e2, s2) \<Rightarrow> (Inl e2, s2)
           | (Inr v, s2) \<Rightarrow> (Inl e, s2)))"

text \<open>The first statement of \<open>indexFiles\<close>, before the \<open>try\<close>.\<close>

definition ensureInitialized :: "Env \<Rightarrow> Engine \<Rightarrow> (Err + unit) \<times> Engine" where
  "ensureInitialized env s = (if \<not> isInitialized s then initialize env s else (Inr (), s))"

definition indexFiles :: "Env \<Rightarrow> SelectedFile list \<Rightarrow> Engine \<Rightarrow> (Err + unit) \<times> Engine" where
  "indexFiles env fs s =
     (case ensureInitialized env s of
        (Inl e, s0) \<Rightarrow> (Inl e, s0)
      | (Inr u, s0) \<Rightarrow>
          (case indexBody env fs s0 of
             (Inl e, s1) \<Rightarrow> indexCatch env e s1
           | (Inr v, s1) \<Rightarrow> (Inr (), s1)))"

subsection \<open>executeSearch\<close>

text \<open>The inner join of \<open>files\<close> and \<open>file_vectors\<close> on the file id, in the order of \<open>files\<close>.\<close>

definition joinRows :: "Store \<Rightarrow> DbRow list" where
  "joinRows st =
     concat (map (\<lambda>f. map (\<lambda>(fid, v).
                      \<lparr> file_id = file_id f, uri = uri f, filename = filename f,
                        file_type = file_type f, caption = caption f, thumbnail = thumbnail f,
                        created_at = created_at f, embedding = v \<rparr>)
                    (filter (\<lambda>(fid, v). fid = file_id f) (file_vectors st)))
                 (files st))"

text \<open>
  \<open>executeSearch\<close>, run without another call in between. Every failure inside it is caught
  and answered with no results.
\<close>

definition executeSearch :: "Env \<Rightarrow> string \<Rightarrow> Engine \<Rightarrow> SearchResult list \<times> Engine" where
  "executeSearch env query s =
     (case (if embeddingModel s = None then loadEmbeddingModel env s else (Inr (), s)) of
        (Inl e, s1) \<Rightarrow> ([], s1)
      | (Inr u, s1) \<Rightarrow>
          (case generateEmbedding env query s1 of
             Inl e \<Rightarrow> ([], s1)
           | Inr queryEmbedding \<Rightarrow>
               if \<not> db s1 then ([], s1)
               else (case selectRows env of
                       Some e \<Rightarrow> ([], s1)
                     | None \<Rightarrow>
                         (rankRows (sortUnordered env) query queryEmbedding
                            (joinRows (store s1)), s1))))"


text \<open>
  \<open>search(query)\<close> called while no search is in progress, run to its return without another
  call in between: the database is opened when its handle is unset, a blank query is answered
  with no results, and any other query is handed to \<open>executeSearch\<close>. A call that finds a
  search in progress is queued instead; when its turn comes it is answered by this same
  function (the next section).
\<close>

definition search_direct :: "Env \<Rightarrow> string \<Rightarrow> Engine \<Rightarrow> (Err + SearchResult list) \<times> Engine" where
  "search_direct env query s =
     (case (if \<not> db s then initialize env s else (Inr (), s)) of
        (Inl e, s0) \<Rightarrow> (Inl e, s0)
      | (Inr u, s0) \<Rightarrow>
          if trim query = [] then (Inr [], s0)
          else (case executeSearch env query s0 of (results, s1) \<Rightarrow> (Inr results, s1)))"

section \<open>The search coordinator\<close>

text \<open>
  \<open>search\<close> on an engine whose database handle is set. JavaScript runs one piece of code at
  a time and switches only at an \<open>await\<close>, so a run of the coordinator is a sequence of two
  kinds of steps: a call of \<open>search\<close>, which runs up to the \<open>await\<close> of \<open>executeSearch\<close> or
  to its \<open>return\<close>, and the return of an \<open>executeSearch\<close>, which runs the \<open>finally\<close> block.

  Every call gets a promise, named by a number. An entry of \<open>searchQueue\<close> holds the query
  and the \<open>resolve\<close>/\<open>reject\<close> pair of the promise of the call that queued it. Beside the
  two fields of the source, the state records what can be observed: \<open>running\<close>, the
  executions of \<open>executeSearch\<close> that have started and not returned; \<open>executed\<close>, every
  execution started so far; \<open>settled\<close>, the promises resolved so far with their values;
  \<open>discarded\<close>, the promises of the queue entries that were thrown away.
\<close>

type_synonym promise = nat

record Coordinator =
  searchInProgress :: bool
  searchQueue :: "(string \<times> promise) list"
  running :: "(string \<times> promise) list"
  executed :: "(string \<times> promise) list"
  settled :: "(promise \<times> SearchResult list) list"
  discarded :: "promise list"
  nextPromise :: promise

definition newCoordinator :: Coordinator where
  "newCoordinator =
     \<lparr> searchInProgress = False, searchQueue = [], running = [], executed = [],
       settled = [], discarded = [], nextPromise = 0 \<rparr>"

text \<open>
  The body of \<open>search(query)\<close> for the call whose outcome settles promise \<open>p\<close>: an empty
  answer for a blank query; otherwise, with a search in progress, the queue is emptied and
  the call is queued; otherwise the flag is set and \<open>executeSearch\<close> starts.
\<close>

definition search_enter :: "string \<Rightarrow> promise \<Rightarrow> Coordinator \<Rightarrow> Coordinator" where
  "search_enter query p s =
     (if trim query = [] then s\<lparr>settled := settled s @ [(p, [])]\<rparr>
      else if searchInProgress s
      then s\<lparr>searchQueue := [(query, p)],
             discarded := discarded s @ map snd (searchQueue s)\<rparr>
      else s\<lparr>searchInProgress := True,
             running := running s @ [(query, p)],
             executed := executed s @ [(query, p)]\<rparr>)"

text \<open>A call of \<open>search\<close> from outside: a new promise is made for it.\<close>

definition search_call :: "string \<Rightarrow> Coordinator \<Rightarrow> Coordinator" where
  "search_call query s = search_enter query (nextPromise s) (s\<lparr>nextPromise := Suc (nextPromise s)\<rparr>)"

text \<open>
  The execution with promise \<open>p\<close> returns \<open>results\<close>: the promise is resolved, the flag is
  cleared, and the first queue entry, if there is one, is taken out and searched for, its
  promise following the outcome of that search.
\<close>

definition search_return :: "promise \<Rightarrow> SearchResult list \<Rightarrow> Coordinator \<Rightarrow> Coordinator" where
  "search_return p results s =
     (if p \<notin> snd ` set (running s) then s
      else
        let s1 = s\<lparr>running := filter (\<lambda>e. snd e \<noteq> p) (running s),
                   settled := settled s @ [(p, results)],
                   searchInProgress := False\<rparr>
        in case searchQueue s1 of
             [] \<Rightarrow> s1
           | next # rest \<Rightarrow> search_enter (fst next) (snd next) (s1\<lparr>searchQueue := rest\<rparr>))"

datatype SearchEvent = Call string | Return promise "SearchResult list"

fun search_step :: "Coordinator \<Rightarrow> SearchEvent \<Rightarrow> Coordinator" where
  "search_step s (Call query) = search_call query s"
| "search_step s (Return p results) = search_return p results s"

definition search_run :: "SearchEvent list \<Rightarrow> Coordinator" where
  "search_run events = foldl search_step newCoordinator events"

text \<open>What holds of every state of a run; used to prove the properties of the runs.\<close>

definition coordinator_inv :: "Coordinator \<Rightarrow> bool" where
  "coordinator_inv s =
     (length (running s) \<le> 1 \<and> length (searchQueue s) \<le> 1
      \<and> (searchInProgress s \<longleftrightarrow> running s \<noteq> [])
      \<and> (\<not> searchInProgress s \<longrightarrow> searchQueue s = [])
      \<and> (\<forall>e \<in> set (searchQueue s). trim (fst e) \<noteq> [])
      \<and> distinct (map snd (searchQueue s) @ map snd (running s) @ map fst (settled s)
                   @ discarded s)
      \<and> snd ` set (executed s) \<subseteq> snd ` set (running s) \<union> fst ` set (settled s)
      \<and> (\<forall>q \<in> set (map snd (searchQueue s) @ map snd (running s) @ map fst (settled s)
                       @ discarded s). q < nextPromise s))"


text \<open>
  A promise that no queue entry and no execution holds any more and that was never settled
  and never executed; used for the promises of the queue entries that are thrown away.
\<close>

definition passed_over :: "promise \<Rightarrow> Coordinator \<Rightarrow> bool" where
  "passed_over p s =
     (p < nextPromise s \<and> p \<notin> snd ` set (searchQueue s) \<and> p \<notin> snd ` set (running s)
      \<and> p \<notin> fst ` set (settled s) \<and> p \<notin> snd ` set (executed s))"

subsection \<open>What a run leaves untouched\<close>

text \<open>
  \<open>errorReports\<close> counts the snapshots of phase \<open>error\<close> reported so far. \<open>keeps s s'\<close>
  says that between \<open>s\<close> and \<open>s'\<close> nothing was written to the database and no \<open>error\<close>
  was reported.
\<close>

definition errorReports :: "Engine \<Rightarrow> nat" where
  "errorReports s = length (filter (\<lambda>p. phase p = Error) (reported s))"

definition keeps :: "Engine \<Rightarrow> Engine \<Rightarrow> bool" where
  "keeps s s' = (store s' = store s \<and> errorReports s' = errorReports s)"

text \<open>The phases reported between two states of a run.\<close>

definition phasesSince :: "Engine \<Rightarrow> Engine \<Rightarrow> ProcessingPhase list" where
  "phasesSince s s' = map phase (drop (length (reported s)) (reported s'))"

section \<open>A small corpus\<close>

text \<open>
  Collaborators that always succeed, three stored images and an engine with the embedder
  loaded, on which the definitions can be run. Every text is embedded as \<open>[1, 0]\<close>; the
  second stored vector points the opposite way. \<open>exampleResult\<close> takes the similarity and
  the distance of a result.
\<close>

definition exampleEnv :: Env where
  "exampleEnv =
     \<lparr> openDatabase = None, getModels = Inr True,
       visionDownload = ([], None), visionDownloadRetry = ([], None), visionInit = None,
       visionDestroy = None,
       resizeImage = (\<lambda>u. None), copyFile = (\<lambda>u f. Inr (''/cache/'' @ f)),
       complete = (\<lambda>p. Inr ''a red bicycle''), visionReset = (\<lambda>i. None),
       extractText = (\<lambda>u. Inr []),
       embeddingDownload = ([], None), embeddingInit = None, embeddingDestroy = None,
       embed = (\<lambda>t. Inr [Finite 1, Finite 0]),
       insertFile = (\<lambda>f. None), insertVector = (\<lambda>f. None), selectRows = None,
       sortUnordered = (\<lambda>xs. xs), now = 0 \<rparr>"

definition exampleFile :: "nat \<Rightarrow> string \<Rightarrow> FileRecord" where
  "exampleFile i c =
     \<lparr> file_id = i, uri = ''/photos/img.png'', filename = ''img.png'', file_type = Image,
       caption = Some c, thumbnail = None, created_at = 0 \<rparr>"

definition exampleRow :: "nat \<Rightarrow> string \<Rightarrow> double list \<Rightarrow> DbRow" where
  "exampleRow i c v =
     \<lparr> file_id = i, uri = ''/photos/img.png'', filename = ''img.png'', file_type = Image,
       caption = Some c, thumbnail = None, created_at = 0, embedding = v \<rparr>"

definition exampleResult :: "nat \<Rightarrow> string \<Rightarrow> double \<Rightarrow> double \<Rightarrow> SearchResult" where
  "exampleResult i c sim dst =
     \<lparr> file_id = i, uri = ''/photos/img.png'', filename = ''img.png'', file_type = Image,
       caption = Some c, thumbnail = None, created_at = 0,
       distance = dst, similarity = sim \<rparr>"

definition exampleStore :: Store where
  "exampleStore =
     \<lparr> files = [exampleFile 1 ''a red bicycle'', exampleFile 2 ''a dog'',
                exampleFile 3 ''a red car''],
       file_vectors = [(1, [Finite 1, Finite 0]), (2, [Finite (- 1), Finite 0]),
                       (3, [Finite 1, Finite 0])],
       lastInsertId = 3 \<rparr>"

definition exampleEngine :: Engine where
  "exampleEngine =
     newEngine\<lparr> db := True, isInitialized := True, store := exampleStore,
                embeddingModel := Some \<lparr>model = EMBEDDING_MODEL,
                  contextSize = EMBEDDING_CONTEXT_SIZE, initialized = True\<rparr> \<rparr>"


definition exampleImage :: "string \<Rightarrow> SelectedFile" where
  "exampleImage n =
     \<lparr> sf_uri = ''/photos/'' @ n, sf_name = n, sf_type = Image,
       mimeType = ''image/png'', sf_size = 1000 \<rparr>"


definition captionFailsEnv :: Env where
  "captionFailsEnv = exampleEnv\<lparr> complete := (\<lambda>p. Inl (External ''complete'')) \<rparr>"



definition exampleCaptionedImage :: "string \<Rightarrow> string \<Rightarrow> CaptionedFile" where
  "exampleCaptionedImage n c = \<lparr> cf_file = exampleImage n, cf_caption = c, cf_thumbnail = None \<rparr>"


text \<open>
  Numbers of the small corpus: the doubles nearest to 0.6 and 0.4, and the doubles that
  print as 0.8999999999999999, 0.10000000000000009, 1.9, 0.6000000000000001 and
  0.3999999999999999.
\<close>

definition ex06 :: real where
  "ex06 = 5404319552844595 / 2 ^ 53"

definition ex04 :: real where
  "ex04 = 3602879701896397 / 2 ^ 53"

definition ex09 :: real where
  "ex09 = 2026619832316723 / 2 ^ 51"

definition ex01 :: real where
  "ex01 = 225179981368525 / 2 ^ 51"

definition ex19 :: real where
  "ex19 = 4278419646001971 / 2 ^ 51"

definition ex06up :: real where
  "ex06up = 1351079888211149 / 2 ^ 51"


text \<open>
  The double nearest to the square root of 2, which prints as 1.4142135623730951, and the
  double below 1 that prints as 0.9999999999999998.
\<close>

definition exSqrt2 :: real where
  "exSqrt2 = 6369051672525773 / 2 ^ 52"

definition exBelowOne :: real where
  "exBelowOne = 9007199254740990 / 2 ^ 53"

text \<open>
  A vector too small for its square to be a double, and a corpus in which the query and
  the second stored vector are too large for their squares: every text is embedded as
  \<open>[2 powi 600]\<close>, the second stored vector is the same, the other two have two
  components.
\<close>

definition tinyComponent :: real where
  "tinyComponent = 2 powi (- 600)"


definition tinyVector :: "double list" where
  "tinyVector = [Finite tinyComponent]"




text \<open>An engine whose vision model is loaded, as inside the image loop.\<close>

definition visionEngine :: Engine where
  "visionEngine =
     newEngine\<lparr> db := True, isInitialized := True,
                visionModel := Some \<lparr>model = DEFAULT_VISION_MODEL, contextSize = CONTEXT_SIZE,
                                     initialized = True\<rparr> \<rparr>"

section \<open>Rounding\<close>

text \<open>
  The binary exponent is the one the bounds determine; rounding a value of a normal
  exponent keeps it finite, a value below half the subnormal spacing rounds to 0 and a
  value at the overflow bound to an infinity; every rounded value is a multiple of the
  subnormal spacing, so that the difference of two doubles that differ is never rounded to
  0.
\<close>

lemma two_powi_Suc: "(2::real) powi (e + 1) = 2 * 2 powi e"
  by (simp add: power_int_add)

lemma two_powi_pos [simp]: "0 < (2::real) powi e"
  by (simp add: zero_less_power_int)

lemma two_powi_mono: "a \<le> b \<Longrightarrow> (2::real) powi a \<le> 2 powi b"
  by (rule power_int_increasing) simp_all

lemma two_powi_strict_mono: "a < b \<Longrightarrow> (2::real) powi a < 2 powi b"
  by (rule power_int_strict_increasing) simp_all

lemma two_powi_add: "(2::real) powi (a + b) = 2 powi a * 2 powi b"
  by (simp add: power_int_add)

lemma two_powi_diff: "(2::real) powi (a - b) = 2 powi a / 2 powi b"
  by (simp add: power_int_diff)

lemma exponentUp_bounds:
  "1 \<le> x \<Longrightarrow> 2 powi (exponentUp x) \<le> x \<and> x < 2 powi (exponentUp x + 1)"
proof (induction x rule: exponentUp.induct)
  case (1 x)
  show ?case
  proof (cases "2 \<le> x")
    case True
    then have "1 \<le> x / 2" by simp
    from "1.IH" [OF True this]
    have ih: "2 powi (exponentUp (x / 2)) \<le> x / 2" "x / 2 < 2 powi (exponentUp (x / 2) + 1)"
      by simp_all
    have step: "exponentUp x = exponentUp (x / 2) + 1"
      using True by (subst exponentUp.simps) simp
    have "(2::real) powi (exponentUp (x / 2) + 1) = 2 * 2 powi (exponentUp (x / 2))"
      and "(2::real) powi (exponentUp (x / 2) + 1 + 1) = 2 * 2 powi (exponentUp (x / 2) + 1)"
      by (rule two_powi_Suc)+
    with ih show ?thesis unfolding step by linarith
  next
    case False
    then have "exponentUp x = 0" by (subst exponentUp.simps) simp
    with False "1.prems" show ?thesis by simp
  qed
qed

lemma exponentDown_bounds:
  "0 < x \<Longrightarrow> x < 1 \<Longrightarrow> 2 powi (exponentDown x) \<le> x \<and> x < 2 powi (exponentDown x + 1)"
proof (induction x rule: exponentDown.induct)
  case (1 x)
  have step: "exponentDown x = exponentDown (2 * x) - 1"
    using "1.prems" by (subst exponentDown.simps) simp
  have p: "(2::real) powi (exponentDown (2 * x) - 1 + 1) = 2 * 2 powi (exponentDown (2 * x) - 1)"
    by (rule two_powi_Suc)
  show ?case
  proof (cases "2 * x < 1")
    case True
    from "1.IH" [OF _ _ True] "1.prems"
    have ih: "2 powi (exponentDown (2 * x)) \<le> 2 * x"
      "2 * x < 2 powi (exponentDown (2 * x) + 1)"
      by simp_all
    have "(2::real) powi (exponentDown (2 * x) + 1) = 2 * 2 powi (exponentDown (2 * x))"
      by (rule two_powi_Suc)
    with ih p show ?thesis unfolding step by simp
  next
    case False
    then have z: "exponentDown (2 * x) = 0" by (subst exponentDown.simps) simp
    have "(2::real) powi (- 1) = 1 / 2" by (simp add: power_int_minus)
    with False "1.prems" show ?thesis unfolding step z by simp
  qed
qed

lemma binaryExponent_bounds:
  assumes "x \<noteq> 0"
  shows "2 powi (binaryExponent x) \<le> \<bar>x\<bar> \<and> \<bar>x\<bar> < 2 powi (binaryExponent x + 1)"
proof (cases "1 \<le> \<bar>x\<bar>")
  case True
  with exponentUp_bounds [of "\<bar>x\<bar>"] show ?thesis by (simp add: binaryExponent_def)
next
  case False
  with assms exponentDown_bounds [of "\<bar>x\<bar>"] show ?thesis by (simp add: binaryExponent_def)
qed

lemma binaryExponent_unique:
  assumes "2 powi e \<le> \<bar>x\<bar>" and "\<bar>x\<bar> < 2 powi (e + 1)"
  shows "binaryExponent x = e"
proof -
  have nz: "x \<noteq> 0"
  proof
    assume "x = 0"
    with assms(1) two_powi_pos [of e] show False by simp
  qed
  note b = binaryExponent_bounds [OF nz]
  have "\<not> binaryExponent x < e"
  proof
    assume "binaryExponent x < e"
    then have "2 powi (binaryExponent x + 1) \<le> (2::real) powi e" by (intro two_powi_mono) simp
    with b assms show False by linarith
  qed
  moreover have "\<not> e < binaryExponent x"
  proof
    assume "e < binaryExponent x"
    then have "2 powi (e + 1) \<le> (2::real) powi (binaryExponent x)" by (intro two_powi_mono) simp
    with b assms show False by linarith
  qed
  ultimately show ?thesis by simp
qed

lemma roundHalfEven_le: "x \<le> of_int k \<Longrightarrow> roundHalfEven x \<le> k"
proof -
  assume a: "x \<le> of_int k"
  then have f: "\<lfloor>x\<rfloor> \<le> k" by (simp add: floor_le_iff)
  show ?thesis
  proof (cases "\<lfloor>x\<rfloor> = k")
    case True
    with a have "x - of_int \<lfloor>x\<rfloor> \<le> 0" by simp
    then have "x - of_int \<lfloor>x\<rfloor> < 1 / 2" by linarith
    with True show ?thesis by (simp add: roundHalfEven_def Let_def)
  next
    case False
    with f have "\<lfloor>x\<rfloor> + 1 \<le> k" by simp
    then show ?thesis by (simp add: roundHalfEven_def Let_def)
  qed
qed

lemma roundHalfEven_ge: "of_int k \<le> x \<Longrightarrow> k \<le> roundHalfEven x"
proof -
  assume "of_int k \<le> x"
  then have "k \<le> \<lfloor>x\<rfloor>" by (simp add: le_floor_iff)
  then show ?thesis by (simp add: roundHalfEven_def Let_def)
qed

lemma roundHalfEven_small: "\<bar>x\<bar> < 1 / 2 \<Longrightarrow> roundHalfEven x = 0"
proof -
  assume a: "\<bar>x\<bar> < 1 / 2"
  show ?thesis
  proof (cases "0 \<le> x")
    case True
    with a have "\<lfloor>x\<rfloor> = 0" by (simp add: floor_eq_iff)
    with a True show ?thesis by (simp add: roundHalfEven_def Let_def)
  next
    case False
    with a have f: "\<lfloor>x\<rfloor> = - 1" by (simp add: floor_eq_iff)
    with a False show ?thesis by (simp add: roundHalfEven_def Let_def)
  qed
qed

lemma roundHalfEven_of_int [simp]: "roundHalfEven (of_int k) = k"
  by (simp add: roundHalfEven_def Let_def)

lemma roundHalfEven_near: "\<bar>x - of_int k\<bar> < 1 / 2 \<Longrightarrow> roundHalfEven x = k"
proof -
  assume a: "\<bar>x - of_int k\<bar> < 1 / 2"
  show ?thesis
  proof (cases "of_int k \<le> x")
    case True
    with a have "\<lfloor>x\<rfloor> = k" by (simp add: floor_eq_iff)
    with a True show ?thesis by (simp add: roundHalfEven_def Let_def)
  next
    case False
    with a have f: "\<lfloor>x\<rfloor> = k - 1" by (simp add: floor_eq_iff)
    with a False show ?thesis by (simp add: roundHalfEven_def Let_def)
  qed
qed

lemma roundDouble_normal:
  assumes lo: "2 powi e \<le> \<bar>x\<bar>" and hi: "\<bar>x\<bar> < 2 powi (e + 1)"
    and e1: "- 1022 \<le> e" and e2: "e < 1023"
  shows "roundDouble x = Finite (of_int (roundHalfEven (x / 2 powi (e - 52))) * 2 powi (e - 52))"
proof -
  define q :: real where "q = 2 powi (e - 52)"
  define k where "k = roundHalfEven (x / q)"
  have qpos: "0 < q" by (simp add: q_def)
  have be: "binaryExponent x = e" using lo hi by (rule binaryExponent_unique)
  have nz: "x \<noteq> 0"
  proof
    assume "x = 0"
    with lo have "2 powi e \<le> (0::real)" by simp
    moreover have "0 < (2::real) powi e" by (rule two_powi_pos)
    ultimately show False by linarith
  qed
  have top: "2 powi (e + 1) = 2 ^ 53 * q"
    using two_powi_add [of 53 "e - 52"] by (simp add: q_def add.commute)
  have "\<bar>x\<bar> < 2 ^ 53 * q" using hi unfolding top .
  then have "\<bar>x\<bar> / q < 2 ^ 53" using qpos by (simp add: field_simps)
  then have b: "x / q \<le> of_int (2 ^ 53)" "of_int (- (2 ^ 53)) \<le> x / q"
    using qpos by (simp_all add: abs_if field_simps split: if_splits)
  have k: "k \<le> 2 ^ 53" "- (2 ^ 53) \<le> k"
    unfolding k_def using roundHalfEven_le [OF b(1)] roundHalfEven_ge [OF b(2)] by simp_all
  then have kr: "of_int k \<le> (2 ^ 53 :: real)" "- (2 ^ 53 :: real) \<le> of_int k"
    by (metis of_int_le_iff of_int_numeral of_int_power, metis of_int_le_iff of_int_numeral of_int_power of_int_minus)
  from mult_right_mono [OF kr(1), of q] mult_right_mono [OF kr(2), of q] qpos
  have "of_int k * q \<le> 2 ^ 53 * q" "- (2 ^ 53 * q) \<le> of_int k * q"
    by simp_all
  moreover have "2 ^ 53 * q < overflowBound"
    unfolding top [symmetric] overflowBound_def using e2 by (intro two_powi_strict_mono) simp
  ultimately have "\<not> overflowBound \<le> of_int k * q" "\<not> of_int k * q \<le> - overflowBound"
    by linarith+
  then show ?thesis
    using nz e1 by (simp add: roundDouble_def be minNormalExponent_def Let_def q_def k_def)
qed

lemma roundDouble_zero [simp]: "roundDouble 0 = Finite 0"
  by (simp add: roundDouble_def)

lemma roundDouble_underflow:
  assumes "\<bar>x\<bar> < 2 powi (- 1075)"
  shows "roundDouble x = Finite 0"
proof (cases "x = 0")
  case True
  then show ?thesis by simp
next
  case False
  note b = binaryExponent_bounds [OF False]
  have "\<not> - 1075 \<le> binaryExponent x"
  proof
    assume "- 1075 \<le> binaryExponent x"
    then have "(2::real) powi (- 1075) \<le> 2 powi (binaryExponent x)" by (rule two_powi_mono)
    with b assms show False by linarith
  qed
  then have m: "max (binaryExponent x) minNormalExponent = - 1022"
    by (simp add: minNormalExponent_def)
  have "(2::real) powi (- 1074) = 2 * 2 powi (- 1075)"
    using two_powi_Suc [of "- 1075"] by simp
  with assms have "\<bar>x / 2 powi (- 1074)\<bar> < 1 / 2" by (simp add: field_simps)
  then have "roundHalfEven (x / 2 powi (- 1074)) = 0" by (rule roundHalfEven_small)
  then show ?thesis
    using False by (simp add: roundDouble_def m Let_def overflowBound_def)
qed


lemma minQuantum_pos: "0 < minQuantum"
  unfolding minQuantum_def by (rule two_powi_pos)

lemma overflowBound_pos: "0 < overflowBound"
  unfolding overflowBound_def by (rule two_powi_pos)

lemma spacing_on_grid:
  assumes "- 1022 \<le> e"
  shows "\<exists>n::nat. 2 powi (e - 52) = 2 ^ n * minQuantum"
proof -
  have "(2::real) powi (e - 52) = 2 powi (e + 1022) * 2 powi (- 1074)"
    using two_powi_add [of "e + 1022" "- 1074"] by simp
  moreover have "(2::real) powi (e + 1022) = 2 ^ nat (e + 1022)"
    using assms by (simp add: power_int_def)
  ultimately show ?thesis unfolding minQuantum_def by auto
qed

lemma onGrid_roundDouble: "onGrid (roundDouble x)"
proof (cases "x = 0")
  case True
  then show ?thesis by (simp add: onGrid_def)
next
  case False
  define e where "e = max (binaryExponent x) minNormalExponent"
  define k where "k = roundHalfEven (x / 2 powi (e - 52))"
  have "- 1022 \<le> e" by (simp add: e_def minNormalExponent_def)
  then obtain n :: nat where n: "2 powi (e - 52) = 2 ^ n * minQuantum"
    using spacing_on_grid by blast
  have "of_int k * 2 powi (e - 52) = of_int (k * 2 ^ n) * minQuantum"
    unfolding n by simp
  then have "\<exists>j::int. of_int k * 2 powi (e - 52) = of_int j * minQuantum" by blast
  then have "onGrid (Finite (of_int k * 2 powi (e - 52)))" by (simp add: onGrid_def)
  then show ?thesis
    using False
    unfolding roundDouble_def Let_def e_def [symmetric] k_def [symmetric]
    by (simp add: onGrid_def)
qed

lemma roundDouble_nonpos:
  assumes "z \<le> 0"
  shows "\<not> dless (Finite 0) (roundDouble z)"
proof (cases "z = 0")
  case True
  then show ?thesis by simp
next
  case False
  define e where "e = max (binaryExponent z) minNormalExponent"
  define q :: real where "q = 2 powi (e - 52)"
  define k where "k = roundHalfEven (z / q)"
  have qpos: "0 < q" unfolding q_def by (rule two_powi_pos)
  with assms have "z / q \<le> of_int 0" by (simp add: field_simps)
  then have "k \<le> 0" unfolding k_def by (rule roundHalfEven_le)
  then have "of_int k * q \<le> 0" using qpos by (simp add: mult_le_0_iff)
  with overflowBound_pos have "\<not> overflowBound \<le> of_int k * q" by linarith
  with \<open>of_int k * q \<le> 0\<close> show ?thesis
    using False
    unfolding roundDouble_def Let_def e_def [symmetric] q_def [symmetric] k_def [symmetric]
    by simp
qed

lemma roundDouble_pos:
  assumes "minQuantum \<le> z"
  shows "dless (Finite 0) (roundDouble z)"
proof -
  have zpos: "0 < z" using assms minQuantum_pos by linarith
  then have nz: "z \<noteq> 0" by simp
  define e where "e = max (binaryExponent z) minNormalExponent"
  define q :: real where "q = 2 powi (e - 52)"
  define k where "k = roundHalfEven (z / q)"
  have qpos: "0 < q" unfolding q_def by (rule two_powi_pos)
  have "q \<le> z"
  proof (cases "minNormalExponent \<le> binaryExponent z")
    case True
    then have "e = binaryExponent z" by (simp add: e_def)
    then have "q \<le> 2 powi (binaryExponent z)" unfolding q_def by (intro two_powi_mono) simp
    with binaryExponent_bounds [OF nz] zpos show ?thesis by simp
  next
    case False
    then have "e = - 1022" by (simp add: e_def minNormalExponent_def)
    then have "q = minQuantum" by (simp add: q_def minQuantum_def)
    with assms show ?thesis by simp
  qed
  then have "of_int 1 \<le> z / q" using qpos by (simp add: field_simps)
  then have "1 \<le> k" unfolding k_def by (rule roundHalfEven_ge)
  then have "(1::real) \<le> of_int k" by simp
  from mult_right_mono [OF this, of q] qpos have "q \<le> of_int k * q" by simp
  with qpos have ypos: "0 < of_int k * q" by linarith
  with overflowBound_pos have "\<not> of_int k * q \<le> - overflowBound" by linarith
  with ypos show ?thesis
    using nz
    unfolding roundDouble_def Let_def e_def [symmetric] q_def [symmetric] k_def [symmetric]
    by simp
qed

lemma roundDouble_not_NaN [simp]: "roundDouble x \<noteq> NaN"
  using onGrid_roundDouble [of x] by (auto simp: onGrid_def)

lemma compare_consistent:
  assumes "onGrid a" and "onGrid b"
  shows "dless (Finite 0) (dsub b a) \<longleftrightarrow> dless a b"
proof (cases a)
  case (Finite x)
  note a = this
  show ?thesis
  proof (cases b)
    case (Finite y)
    from assms a Finite obtain i j :: int
      where x: "x = of_int i * minQuantum" and y: "y = of_int j * minQuantum"
      by (auto simp: onGrid_def)
    show ?thesis
    proof (cases "x < y")
      case True
      with x y minQuantum_pos have "i < j" by simp
      then have "(1::real) \<le> of_int (j - i)" by simp
      from mult_right_mono [OF this, of minQuantum] minQuantum_pos
      have "minQuantum \<le> y + - x" by (simp add: x y algebra_simps)
      from roundDouble_pos [OF this] True show ?thesis by (simp add: a Finite dsub_def)
    next
      case False
      then have "y + - x \<le> 0" by simp
      from roundDouble_nonpos [OF this] False show ?thesis by (simp add: a Finite dsub_def)
    qed
  next
    case PosInf
    with a show ?thesis by (simp add: dsub_def)
  next
    case NegInf
    with a show ?thesis by (simp add: dsub_def)
  next
    case NaN
    with assms show ?thesis by (simp add: onGrid_def)
  qed
next
  case PosInf
  then show ?thesis using assms by (cases b) (simp_all add: dsub_def onGrid_def)
next
  case NegInf
  then show ?thesis using assms by (cases b) (simp_all add: dsub_def onGrid_def)
next
  case NaN
  with assms show ?thesis by (simp add: onGrid_def)
qed


lemma dless_irrefl [simp]: "\<not> dless a a"
  by (cases a) simp_all








text \<open>Rounding at the numbers of the small corpus.\<close>

lemma roundDouble_eval:
  assumes "- 1022 \<le> e" and "e < 1023" and "2 powi e \<le> \<bar>x\<bar>" and "\<bar>x\<bar> < 2 powi (e + 1)"
    and "roundHalfEven (x / 2 powi (e - 52)) = k" and "y = of_int k * 2 powi (e - 52)"
  shows "roundDouble x = Finite y"
  using roundDouble_normal [OF assms(3,4,1,2)] assms(5,6) by simp

lemma roundDouble_one [simp]: "roundDouble 1 = Finite 1"
  by (rule roundDouble_eval [of 0 _ "2 ^ 52"]) (simp_all add: roundHalfEven_def)

lemma roundDouble_minus_one [simp]: "roundDouble (- 1) = Finite (- 1)"
  by (rule roundDouble_eval [of 0 _ "- (2 ^ 52)"]) (simp_all add: roundHalfEven_def)

lemma literal_one [simp]: "literal 1 = Finite 1"
  by (simp add: literal_def)

lemma literal_06: "literal (6 / 10) = Finite ex06"
  unfolding literal_def
  by (rule roundDouble_eval [of "- 1" _ 5404319552844595])
    (simp_all add: roundHalfEven_def ex06_def)

lemma literal_04: "literal (4 / 10) = Finite ex04"
  unfolding literal_def
  by (rule roundDouble_eval [of "- 2" _ 7205759403792794])
    (simp_all add: roundHalfEven_def ex04_def)

lemma literal_15: "literal (15 / 10) = Finite (3 / 2)"
  unfolding literal_def
  by (rule roundDouble_eval [of 0 _ 6755399441055744])
    (simp_all add: roundHalfEven_def)

lemma roundDouble_15 [simp]: "roundDouble (3 / 2) = Finite (3 / 2)"
  using literal_15 by (simp add: literal_def)

lemma roundDouble_ex06 [simp]: "roundDouble ex06 = Finite ex06"
  by (rule roundDouble_eval [of "- 1" _ 5404319552844595])
    (simp_all add: roundHalfEven_def ex06_def)

lemma roundDouble_ex04 [simp]: "roundDouble ex04 = Finite ex04"
  by (rule roundDouble_eval [of "- 2" _ 7205759403792794])
    (simp_all add: roundHalfEven_def ex04_def)

lemma roundDouble_minus_ex06 [simp]: "roundDouble (- ex06) = Finite (- ex06)"
  by (rule roundDouble_eval [of "- 1" _ "- 5404319552844595"])
    (simp_all add: roundHalfEven_def ex06_def)

lemma example_bounds:
  "ex09 < 1" "- 1 < ex09" "0 < ex09" "ex06up < 1" "0 < ex06up" "1 < ex19"
  by (simp_all add: ex09_def ex06up_def ex19_def)

lemma boost_ex06: "roundDouble (ex06 * 3 / 2) = Finite ex09"
  by (rule roundDouble_eval [of "- 1" _ 8106479329266892])
    (simp_all add: roundHalfEven_def ex06_def ex09_def)

lemma boost_minus_ex06: "roundDouble (- (ex06 * 3 / 2)) = Finite (- ex09)"
  by (rule roundDouble_eval [of "- 1" _ "- 8106479329266892"])
    (simp_all add: roundHalfEven_def ex06_def ex09_def)

lemma boost_ex04: "roundDouble (ex04 * 3 / 2) = Finite ex06up"
  by (rule roundDouble_eval [of "- 1" _ 5404319552844596])
    (simp_all add: roundHalfEven_def ex04_def ex06up_def)

lemma onGrid_examples:
  "onGrid (Finite 0)" "onGrid (Finite 1)" "onGrid (Finite ex09)" "onGrid (Finite (- ex09))"
  "onGrid (Finite ex06up)"
  using onGrid_roundDouble [of 0] onGrid_roundDouble [of 1]
    onGrid_roundDouble [of "ex06 * 3 / 2"] onGrid_roundDouble [of "- (ex06 * 3 / 2)"]
    onGrid_roundDouble [of "ex04 * 3 / 2"]
  by (simp_all add: boost_ex06 boost_minus_ex06 boost_ex04)

lemma dsub_NaN [simp]: "dsub a NaN = NaN"
  by (cases a) (simp_all add: dsub_def)

lemma dsub_zero [simp]: "dsub (Finite x) (Finite 0) = roundDouble x"
  by (simp add: dsub_def)

lemma distance_ex09: "dsub (Finite 1) (Finite ex09) = Finite ex01"
  unfolding dsub_def dneg.simps dadd.simps
  by (rule roundDouble_eval [of "- 4" _ 7205759403792800])
    (simp_all add: roundHalfEven_def ex09_def ex01_def)

lemma distance_minus_ex09: "dsub (Finite 1) (Finite (- ex09)) = Finite ex19"
  unfolding dsub_def dneg.simps dadd.simps
  by (rule roundDouble_eval [of 0 _ 8556839292003942])
    (simp_all add: roundHalfEven_def ex09_def ex19_def)


lemma sum_06_04: "roundDouble (ex06 + ex04) = Finite 1"
  by (rule roundDouble_eval [of 0 _ "2 ^ 52"])
    (simp_all add: roundHalfEven_def ex06_def ex04_def)

section \<open>The scores of a row\<close>

lemma cosineLoop_folds:
  "i \<le> length a \<Longrightarrow>
   cosineLoop a b i (d, na, nb) =
     (foldl dadd d (map (\<lambda>k. dmul (a ! k) (b ! k)) [i..<length a]),
      foldl dadd na (map (\<lambda>k. dmul (a ! k) (a ! k)) [i..<length a]),
      foldl dadd nb (map (\<lambda>k. dmul (b ! k) (b ! k)) [i..<length a]))"
proof (induction a b i "(d, na, nb)" arbitrary: d na nb rule: cosineLoop.induct)
  case (1 a b i d na nb)
  show ?case
  proof (cases "i < length a")
    case True
    then show ?thesis
      using "1.hyps" [OF True]
      by (subst cosineLoop.simps) (simp add: upt_conv_Cons)
  next
    case False
    then show ?thesis using "1.prems" by (subst cosineLoop.simps) simp
  qed
qed

lemma map2_nth:
  "length a = length b \<Longrightarrow> map2 f a b = map (\<lambda>k. f (a ! k) (b ! k)) [0..<length a]"
  by (rule nth_equalityI) simp_all

lemma cosineSimilarity_spec:
  "cosineSimilarity a b = (if length a \<noteq> length b then Finite 0 else spec_cosineDouble a b)"
  by (simp add: cosineSimilarity_def spec_cosineDouble_def dotDouble_def cosineLoop_folds
      map2_nth Let_def)

lemma includesStr_sublist: "includesStr t w \<longleftrightarrow> sublist w t"
  by (induction t) (auto simp: sublist_Cons_right)

lemma countMatches_filter:
  "countMatches t ws n = n + length (filter (includesStr t) ws)"
  by (induction ws arbitrary: n) auto

lemma spec_tokens_Nil: "spec_tokens [] = []"
  by (simp add: spec_tokens.simps)

lemma spec_tokens_skip: "isWhitespace c \<Longrightarrow> spec_tokens (c # cs) = spec_tokens cs"
  by (simp add: spec_tokens.simps [of "c # cs"] spec_tokens.simps [of cs])

lemma spec_tokens_dropWhile: "spec_tokens (dropWhile isWhitespace s) = spec_tokens s"
  by (simp add: spec_tokens.simps [of "dropWhile isWhitespace s"] spec_tokens.simps [of s])

lemma spec_tokens_word:
  assumes "\<forall>c \<in> set w. \<not> isWhitespace c" and "w \<noteq> []"
  shows "spec_tokens (w @ s) =
           (w @ takeWhile (\<lambda>x. \<not> isWhitespace x) s)
           # spec_tokens (dropWhile (\<lambda>x. \<not> isWhitespace x) s)"
proof -
  from assms obtain c w' where w: "w = c # w'" by (cases w) auto
  with assms have c: "\<not> isWhitespace c" and w': "\<forall>x \<in> set w'. \<not> isWhitespace x" by auto
  from w' have "takeWhile (\<lambda>x. \<not> isWhitespace x) (w' @ s) = w' @ takeWhile (\<lambda>x. \<not> isWhitespace x) s"
    and "dropWhile (\<lambda>x. \<not> isWhitespace x) (w' @ s) = dropWhile (\<lambda>x. \<not> isWhitespace x) s"
    by simp_all
  with c show ?thesis
    by (simp add: w spec_tokens.simps [of "c # w' @ s"])
qed

lemma splitWhitespace_tokens:
  "\<forall>c \<in> set cur. \<not> isWhitespace c \<Longrightarrow>
   filter (\<lambda>w. w \<noteq> []) (splitWhitespace cur s) = spec_tokens (cur @ s)"
proof (induction cur s rule: splitWhitespace.induct)
  case (1 cur)
  show ?case
  proof (cases "cur = []")
    case True
    then show ?thesis by (simp add: spec_tokens_Nil)
  next
    case False
    with 1 spec_tokens_word [of cur "[]"] show ?thesis by (simp add: spec_tokens_Nil)
  qed
next
  case (2 cur c cs)
  show ?case
  proof (cases "isWhitespace c")
    case True
    have ih: "filter (\<lambda>w. w \<noteq> []) (splitWhitespace [] (dropWhile isWhitespace cs)) = spec_tokens cs"
      using "2.IH"(1) [OF True] by (simp add: spec_tokens_dropWhile)
    show ?thesis
    proof (cases "cur = []")
      case True
      with \<open>isWhitespace c\<close> ih show ?thesis by (simp add: spec_tokens_skip)
    next
      case False
      with "2.prems" spec_tokens_word [of cur "c # cs"] \<open>isWhitespace c\<close> ih
      show ?thesis by (simp add: spec_tokens_skip)
    qed
  next
    case False
    with "2.prems" have "\<forall>x \<in> set (cur @ [c]). \<not> isWhitespace x" by simp
    from "2.IH"(2) [OF False this] False show ?thesis by simp
  qed
qed

lemma queryWordsOf_spec:
  "queryWordsOf query = filter (\<lambda>w. length w > 2) (spec_tokens (toLowerCase query))"
proof -
  have "filter (\<lambda>w. length w > 2) (splitWhitespace [] s)
        = filter (\<lambda>w. length w > 2) (filter (\<lambda>w. w \<noteq> []) (splitWhitespace [] s))" for s
    by (rule sym) (auto intro: filter_cong)
  then show ?thesis
    using splitWhitespace_tokens [of "[]"] by (simp add: queryWordsOf_def)
qed

lemma keywordMatchScore_spec:
  "keywordMatchScore query text = roundDouble (spec_keywordOverlap query text)"
  by (simp add: keywordMatchScore_def spec_keywordOverlap_def queryWordsOf_spec
      countMatches_filter includesStr_sublist Let_def ofNat_def)

section \<open>The sort\<close>



lemma insertSorted_mset: "mset (insertSorted x xs) = add_mset x (mset xs)"
  by (induction xs) auto

lemma stableSort_mset: "mset (stableSort xs) = mset xs"
  by (induction xs) (auto simp: insertSorted_mset)

lemma sortBySimilarity_mset: "mset (sortBySimilarity engineOrder xs) = mset xs"
  by (simp add: sortBySimilarity_def stableSort_mset)

lemma sortBySimilarity_set: "set (sortBySimilarity engineOrder xs) = set xs"
  using sortBySimilarity_mset [of engineOrder xs] by (metis set_mset_mset)










section \<open>Scoring and ranking in a search\<close>

text \<open>Concrete values on the small corpus.\<close>

lemma queryWordsOf_cat: "queryWordsOf ''cat'' = [''cat'']"
  by code_simp

lemma queryWordsOf_red: "queryWordsOf ''red'' = [''red'']"
  by code_simp

lemma includesStr_cat:
  "includesStr (toLowerCase ''a red bicycle'') ''cat'' = False"
  "includesStr (toLowerCase ''a dog'') ''cat'' = False"
  "includesStr (toLowerCase ''a red car'') ''cat'' = False"
  "includesStr (toLowerCase ''img.png'') ''cat'' = False"
  "includesStr (toLowerCase ''a cat'') ''cat'' = True"
  by code_simp+

lemma includesStr_red:
  "includesStr (toLowerCase ''a red bicycle'') ''red'' = True"
  "includesStr (toLowerCase ''img.png'') ''red'' = False"
  by code_simp+

lemma keywordMatchScore_cat:
  "keywordMatchScore ''cat'' ''a red bicycle'' = Finite 0"
  "keywordMatchScore ''cat'' ''a dog'' = Finite 0"
  "keywordMatchScore ''cat'' ''a red car'' = Finite 0"
  "keywordMatchScore ''cat'' ''img.png'' = Finite 0"
  "keywordMatchScore ''cat'' ''a cat'' = Finite 1"
  by (simp_all add: keywordMatchScore_def Let_def queryWordsOf_cat includesStr_cat ofNat_def)

lemma keywordMatchScore_red:
  "keywordMatchScore ''red'' ''a red bicycle'' = Finite 1"
  "keywordMatchScore ''red'' ''img.png'' = Finite 0"
  by (simp_all add: keywordMatchScore_def Let_def queryWordsOf_red includesStr_red ofNat_def)

lemma trim_cat: "trim ''cat'' = ''cat''"
  by code_simp

lemma cosineSimilarity_example:
  "cosineSimilarity [Finite 1, Finite 0] [Finite 1, Finite 0] = Finite 1"
  "cosineSimilarity [Finite 1, Finite 0] [Finite (- 1), Finite 0] = Finite (- 1)"
  by (simp_all add: cosineSimilarity_def cosineLoop.simps)

lemma literal_simps:
  "literal (3 / 5) = Finite ex06" "literal (2 / 5) = Finite ex04" "literal (3 / 2) = Finite (3 / 2)"
  using literal_06 literal_04 literal_15 by simp_all

lemma scoreRow_example:
  "scoreRow ''cat'' [Finite 1, Finite 0] (exampleRow 1 ''a red bicycle'' [Finite 1, Finite 0])
     = exampleResult 1 ''a red bicycle'' (Finite ex09) (Finite ex01)"
  "scoreRow ''cat'' [Finite 1, Finite 0] (exampleRow 2 ''a dog'' [Finite (- 1), Finite 0])
     = exampleResult 2 ''a dog'' (Finite (- ex09)) (Finite ex19)"
  "scoreRow ''cat'' [Finite 1, Finite 0] (exampleRow 3 ''a red car'' [Finite 1, Finite 0])
     = exampleResult 3 ''a red car'' (Finite ex09) (Finite ex01)"
  by (simp_all add: scoreRow_def hybridScoreOf_def semanticScoreOf_def keywordScoreOf_def
      orEmpty_def exampleRow_def exampleResult_def cosineSimilarity_example
      keywordMatchScore_cat literal_simps dmax_def dmin_def boost_ex06 boost_minus_ex06
      distance_ex09 distance_minus_ex09 example_bounds Let_def)


lemma exampleEngine_fields:
  "db exampleEngine" "embeddingModel exampleEngine \<noteq> None"
  "joinRows (store exampleEngine) =
     [exampleRow 1 ''a red bicycle'' [Finite 1, Finite 0],
      exampleRow 2 ''a dog'' [Finite (- 1), Finite 0],
      exampleRow 3 ''a red car'' [Finite 1, Finite 0]]"
  by (simp_all add: exampleEngine_def newEngine_def joinRows_def exampleStore_def
      exampleFile_def exampleRow_def)

lemma exampleEnv_fields:
  "embed exampleEnv t = Inr [Finite 1, Finite 0]" "selectRows exampleEnv = None"
  "sortUnordered exampleEnv = (\<lambda>xs. xs)"
  by (simp_all add: exampleEnv_def)

lemma similarity_exampleResult [simp]: "similarity (exampleResult i c sim dst) = sim"
  by (simp add: exampleResult_def)

lemma distance_exampleResult [simp]: "distance (exampleResult i c sim dst) = dst"
  by (simp add: exampleResult_def)

lemma rankRows_example:
  "rankRows engineOrder ''cat'' [Finite 1, Finite 0]
     [exampleRow 1 ''a red bicycle'' [Finite 1, Finite 0],
      exampleRow 2 ''a dog'' [Finite (- 1), Finite 0],
      exampleRow 3 ''a red car'' [Finite 1, Finite 0]] =
     [exampleResult 1 ''a red bicycle'' (Finite ex09) (Finite ex01),
      exampleResult 3 ''a red car'' (Finite ex09) (Finite ex01),
      exampleResult 2 ''a dog'' (Finite (- ex09)) (Finite ex19)]"
  by (simp add: rankRows_def scoreRow_example sortBySimilarity_def compareFn_def
      compare_consistent onGrid_examples example_bounds SEARCH_RESULTS_LIMIT_def
      del: One_nat_def)

lemma search_direct_example:
  "search_direct exampleEnv ''cat'' exampleEngine =
     (Inr [exampleResult 1 ''a red bicycle'' (Finite ex09) (Finite ex01),
           exampleResult 3 ''a red car'' (Finite ex09) (Finite ex01),
           exampleResult 2 ''a dog'' (Finite (- ex09)) (Finite ex19)], exampleEngine)"
  by (simp add: search_direct_def executeSearch_def generateEmbedding_def exampleEngine_fields
      exampleEnv_fields rankRows_example trim_cat del: One_nat_def)

lemma tiny_square: "roundDouble (tinyComponent * tinyComponent) = Finite 0"
proof (rule roundDouble_underflow)
  have "tinyComponent * tinyComponent = 2 powi (- 1200)"
    using two_powi_add [of "- 600" "- 600"] by (simp add: tinyComponent_def)
  moreover have "(2::real) powi (- 1200) < 2 powi (- 1075)"
    by (rule two_powi_strict_mono) simp
  moreover have "0 < tinyComponent * tinyComponent"
    unfolding tinyComponent_def by (intro mult_pos_pos two_powi_pos)
  ultimately show "\<bar>tinyComponent * tinyComponent\<bar> < 2 powi (- 1075)" by simp
qed


lemma tinyComponent_pos: "0 < tinyComponent"
  unfolding tinyComponent_def by (rule two_powi_pos)

lemma cosineSimilarity_tiny: "cosineSimilarity tinyVector tinyVector = Finite 0"
  by (simp add: cosineSimilarity_def tinyVector_def cosineLoop.simps tiny_square)

lemma spec_cosine_tiny: "spec_cosine [tinyComponent] [tinyComponent] = 1"
  using tinyComponent_pos by (simp add: spec_cosine_def)



text \<open>
  The vector \<open>[1, 1]\<close> against itself: the square root of 2 is rounded, the product of the
  two norms comes out above 2, and the cosine is 0.9999999999999998 rather than 1.
\<close>

lemma sqrt_two_rounded: "roundDouble (sqrt 2) = Finite exSqrt2"
proof (rule roundDouble_eval [of 0 _ 6369051672525773])
  have lo: "(6369051672525773 - 1 / 2) / 2 ^ 52 < sqrt 2"
    by (rule real_less_rsqrt) (simp add: power2_eq_square)
  have hi: "sqrt 2 < (6369051672525773 + 1 / 2) / 2 ^ 52"
    by (rule real_less_lsqrt) (simp_all add: power2_eq_square)
  from lo hi show "2 powi 0 \<le> \<bar>sqrt 2\<bar>" "\<bar>sqrt 2\<bar> < 2 powi (0 + 1)" by simp_all
  have r: "sqrt 2 / 2 powi (0 - 52) = sqrt 2 * 2 ^ 52" by (simp add: power_int_minus)
  from hi have a: "sqrt 2 * 2 ^ 52 - 6369051672525773 < 1 / 2" by (simp add: field_simps)
  from lo have b: "- (1 / 2) < sqrt 2 * 2 ^ 52 - 6369051672525773" by (simp add: field_simps)
  from a b have "\<bar>sqrt 2 * 2 ^ 52 - 6369051672525773\<bar> < 1 / 2"
    unfolding abs_less_iff by linarith
  then have "\<bar>sqrt 2 / 2 powi (0 - 52) - of_int 6369051672525773\<bar> < 1 / 2"
    unfolding r by simp
  then show "roundHalfEven (sqrt 2 / 2 powi (0 - 52)) = 6369051672525773"
    by (rule roundHalfEven_near)
qed (simp_all add: exSqrt2_def)

lemma cosineSimilarity_ones:
  "cosineSimilarity [Finite 1, Finite 1] [Finite 1, Finite 1] = Finite exBelowOne"
proof -
  have two: "roundDouble 2 = Finite 2"
    by (rule roundDouble_eval [of 1 _ "2 ^ 52"]) (simp_all add: roundHalfEven_def)
  have den: "roundDouble (exSqrt2 * exSqrt2) = Finite (4503599627370497 / 2 ^ 51)"
    by (rule roundDouble_eval [of 1 _ 4503599627370497])
      (simp_all add: roundHalfEven_def exSqrt2_def)
  have quot: "roundDouble (2 / (4503599627370497 / 2 ^ 51)) = Finite exBelowOne"
    by (rule roundDouble_eval [of "- 1" _ 9007199254740990])
      (simp_all add: roundHalfEven_def exBelowOne_def)
  have loop: "cosineLoop [Finite 1, Finite 1] [Finite 1, Finite 1] 0 (Finite 0, Finite 0, Finite 0)
        = (Finite 2, Finite 2, Finite 2)"
    by (simp add: cosineLoop.simps two)
  show ?thesis
    unfolding cosineSimilarity_def loop
    using den quot by (simp add: sqrt_two_rounded)
qed


text \<open>
  C1, as the specification words it: the semantic term of a row is the cosine similarity of
  the query embedding and the row embedding. The engine computes the cosine in double
  arithmetic, where the square of a small component underflows to 0: for the query
  embedding and the row embedding \<open>[2 powi (- 600)]\<close> the norms come out as 0 and the
  semantic term is 0, while the cosine similarity of the two vectors is 1.
\<close>

theorem cosineSimilarity_underflow_counterexample:
  "semanticScoreOf tinyVector (exampleRow 1 ''a red bicycle'' tinyVector) = Finite 0
   \<and> tinyVector = [Finite tinyComponent]
   \<and> spec_cosine [tinyComponent] [tinyComponent] = 1"
  by (simp add: semanticScoreOf_def exampleRow_def cosineSimilarity_tiny spec_cosine_tiny
      tinyVector_def [symmetric])

text \<open>
  C1, amended. For every row that \<open>search(query)\<close> scores, the scores are the formulas of the
  specification evaluated in double arithmetic, every operation rounding to the nearest
  double: the semantic term is the cosine of the query embedding and the row embedding
  computed so (the dot product over the product of the square roots of the two sums of
  squares, the sums taken in the order of the index, and 0 when that product is 0), and 0
  when their dimensions differ; the keyword term is the larger of the keyword overlaps of
  the query with the caption and with the file name, each the double nearest to the
  fraction; the hybrid score is the semantic term times the double 0.6 plus the keyword term
  times the double 0.4; the similarity of the result is \<open>Math.min\<close> of 1 and the hybrid score
  times 1.5, which is NaN when the hybrid score is; its distance is 1 minus its similarity.
  The results of a search are scored rows.
\<close>

theorem scoreRow_hybrid_score:
  "semanticScoreOf queryEmbedding row =
     (if length queryEmbedding \<noteq> length (embedding row) then Finite 0
      else spec_cosineDouble queryEmbedding (embedding row))
   \<and> keywordScoreOf query row =
       dmax (roundDouble (spec_keywordOverlap query (orEmpty (caption row))))
            (roundDouble (spec_keywordOverlap query (filename row)))
   \<and> hybridScoreOf query queryEmbedding row =
       dadd (dmul (semanticScoreOf queryEmbedding row) (literal (6 / 10)))
            (dmul (keywordScoreOf query row) (literal (4 / 10)))
   \<and> similarity (scoreRow query queryEmbedding row) =
       dmin (literal 1) (dmul (hybridScoreOf query queryEmbedding row) (literal (15 / 10)))
   \<and> distance (scoreRow query queryEmbedding row) =
       dsub (literal 1) (similarity (scoreRow query queryEmbedding row))
   \<and> set (rankRows engineOrder query queryEmbedding rows)
       \<subseteq> scoreRow query queryEmbedding ` set rows"
proof -
  have "set (rankRows engineOrder query queryEmbedding rows)
        \<subseteq> scoreRow query queryEmbedding ` set rows"
    by (auto simp: rankRows_def Let_def sortBySimilarity_set dest!: in_set_takeD)
  then show ?thesis
    by (simp add: semanticScoreOf_def keywordScoreOf_def hybridScoreOf_def scoreRow_def
        cosineSimilarity_spec keywordMatchScore_spec Let_def del: literal_one)
qed

theorem scoreRow_hybrid_score_witness:
  "similarity (scoreRow ''red'' [Finite 1, Finite 0]
                 (exampleRow 1 ''a red bicycle'' [Finite 1, Finite 0])) = Finite 1
   \<and> distance (scoreRow ''red'' [Finite 1, Finite 0]
                  (exampleRow 1 ''a red bicycle'' [Finite 1, Finite 0])) = Finite 0
   \<and> semanticScoreOf [Finite 1, Finite 0] (exampleRow 1 ''a red bicycle'' [Finite 1])
       = Finite 0"
proof -
  define row where "row = exampleRow 1 ''a red bicycle'' [Finite 1, Finite 0]"
  define short where "short = exampleRow 1 ''a red bicycle'' [Finite 1]"
  note t = scoreRow_hybrid_score [of "[Finite 1, Finite 0]" row "''red''" "\<lambda>xs. xs" "[]"]
  note u = scoreRow_hybrid_score [of "[Finite 1, Finite 0]" short "''red''" "\<lambda>xs. xs" "[]"]
  have sem: "semanticScoreOf [Finite 1, Finite 0] row = Finite 1"
    by (simp add: row_def semanticScoreOf_def exampleRow_def cosineSimilarity_example)
  have kw: "keywordScoreOf ''red'' row = Finite 1"
    by (simp add: row_def keywordScoreOf_def exampleRow_def orEmpty_def keywordMatchScore_red
        dmax_def)
  from t have "hybridScoreOf ''red'' [Finite 1, Finite 0] row =
                 dadd (dmul (Finite 1) (literal (6 / 10))) (dmul (Finite 1) (literal (4 / 10)))"
    unfolding sem kw by blast
  then have hy: "hybridScoreOf ''red'' [Finite 1, Finite 0] row = Finite 1"
    by (simp add: literal_simps sum_06_04)
  from t have "similarity (scoreRow ''red'' [Finite 1, Finite 0] row) =
                 dmin (literal 1) (dmul (Finite 1) (literal (15 / 10)))"
    unfolding hy by blast
  then have sim: "similarity (scoreRow ''red'' [Finite 1, Finite 0] row) = Finite 1"
    by (simp add: literal_simps dmin_def)
  from t have "distance (scoreRow ''red'' [Finite 1, Finite 0] row) =
                 dsub (literal 1) (similarity (scoreRow ''red'' [Finite 1, Finite 0] row))"
    by blast
  then have dst: "distance (scoreRow ''red'' [Finite 1, Finite 0] row) = Finite 0"
    unfolding sim by (simp add: dsub_def)
  from u have "semanticScoreOf [Finite 1, Finite 0] short = Finite 0"
    by (simp add: short_def exampleRow_def)
  with sim dst show ?thesis unfolding row_def short_def by simp
qed

text \<open>Loading a model and opening the database write nothing to the tables.\<close>

lemma store_reportProgress [simp]: "store (reportProgress ph c t s) = store s"
  by (simp add: reportProgress_def)

lemma store_reportDownload [simp]: "store (reportDownload ph ts s) = store s"
  by (induction ts arbitrary: s) auto












text \<open>
  C9. Every result of a search should have a similarity between 0 and 1 and a distance of 1
  minus the similarity. The similarity is capped at 1 and never raised to 0: on the small
  corpus the search for \<open>cat\<close> returns the second image with the similarity
  -0.8999999999999999 and the distance 1.9, its stored vector pointing away from the
  query's.
\<close>

theorem search_similarity_below_zero:
  "exampleResult 2 ''a dog'' (Finite (- ex09)) (Finite ex19)
     \<in> set (projr (fst (search_direct exampleEnv ''cat'' exampleEngine)))
   \<and> similarity (exampleResult 2 ''a dog'' (Finite (- ex09)) (Finite ex19)) = Finite (- ex09)
   \<and> distance (exampleResult 2 ''a dog'' (Finite (- ex09)) (Finite ex19)) = Finite ex19
   \<and> scoreRow ''cat'' [Finite 1, Finite 0] (exampleRow 2 ''a dog'' [Finite (- 1), Finite 0])
       = exampleResult 2 ''a dog'' (Finite (- ex09)) (Finite ex19)
   \<and> dless (Finite (- ex09)) (Finite 0) \<and> dless (Finite 1) (Finite ex19)
   \<and> - ex09 = - 2026619832316723 / 2 ^ 51 \<and> ex19 = 4278419646001971 / 2 ^ 51"
  by (simp add: search_direct_example scoreRow_example example_bounds ex09_def ex19_def)

section \<open>The indexing pipeline\<close>

subsection \<open>What the phases before saving leave untouched\<close>

lemma keeps_refl [simp]: "keeps s s"
  by (simp add: keeps_def)

lemma keeps_trans: "keeps s s1 \<Longrightarrow> keeps s1 s2 \<Longrightarrow> keeps s s2"
  by (simp add: keeps_def)

lemma keeps_reportProgress: "ph \<noteq> Error \<Longrightarrow> keeps s (reportProgress ph c t s)"
  by (simp add: keeps_def reportProgress_def errorReports_def)

lemma keeps_reportDownload: "ph \<noteq> Error \<Longrightarrow> keeps s (reportDownload ph ts s)"
proof (induction ts arbitrary: s)
  case Nil
  show ?case by simp
next
  case (Cons t ts)
  have "keeps s (reportProgress ph t 100 s)"
    by (rule keeps_reportProgress [OF Cons.prems])
  moreover have "keeps (reportProgress ph t 100 s) (reportDownload ph ts (reportProgress ph t 100 s))"
    by (rule Cons.IH [OF Cons.prems])
  ultimately show ?case by (simp add: keeps_trans)
qed

lemma keeps_download: "download ph out s = (r, s') \<Longrightarrow> ph \<noteq> Error \<Longrightarrow> keeps s s'"
  by (auto simp: download_def Let_def keeps_reportDownload split: option.splits)

lemma keeps_visionModel_update [simp]: "keeps s (s'\<lparr>visionModel := v\<rparr>) = keeps s s'"
  by (simp add: keeps_def errorReports_def)

lemma keeps_embeddingModel_update [simp]: "keeps s (s'\<lparr>embeddingModel := v\<rparr>) = keeps s s'"
  by (simp add: keeps_def errorReports_def)

lemma keeps_embeddingModelLoading_update [simp]:
  "keeps s (s'\<lparr>embeddingModelLoading := v\<rparr>) = keeps s s'"
  by (simp add: keeps_def errorReports_def)

lemma keeps_embeddingModelLoadPromise_update [simp]:
  "keeps s (s'\<lparr>embeddingModelLoadPromise := v\<rparr>) = keeps s s'"
  by (simp add: keeps_def errorReports_def)

lemma keeps_embeddingInits_update [simp]: "keeps s (s'\<lparr>embeddingInits := v\<rparr>) = keeps s s'"
  by (simp add: keeps_def errorReports_def)

lemma keeps_from_visionModel_update [simp]: "keeps (s\<lparr>visionModel := v\<rparr>) s' = keeps s s'"
  by (simp add: keeps_def errorReports_def)

lemma keeps_from_embeddingModel_update [simp]: "keeps (s\<lparr>embeddingModel := v\<rparr>) s' = keeps s s'"
  by (simp add: keeps_def errorReports_def)

lemma keeps_from_embeddingModelLoading_update [simp]:
  "keeps (s\<lparr>embeddingModelLoading := v\<rparr>) s' = keeps s s'"
  by (simp add: keeps_def errorReports_def)

lemma keeps_from_embeddingModelLoadPromise_update [simp]:
  "keeps (s\<lparr>embeddingModelLoadPromise := v\<rparr>) s' = keeps s s'"
  by (simp add: keeps_def errorReports_def)

lemma keeps_from_embeddingInits_update [simp]: "keeps (s\<lparr>embeddingInits := v\<rparr>) s' = keeps s s'"
  by (simp add: keeps_def errorReports_def)

lemma keeps_unloadVisionModel: "unloadVisionModel env s = (r, s') \<Longrightarrow> keeps s s'"
  by (auto simp: unloadVisionModel_def keeps_def reportProgress_def errorReports_def Let_def
      split: if_splits option.splits)

lemma keeps_unloadEmbeddingModel: "unloadEmbeddingModel env s = (r, s') \<Longrightarrow> keeps s s'"
  by (auto simp: unloadEmbeddingModel_def split: if_splits option.splits)

lemma keeps_report_right [simp]:
  "ph \<noteq> Error \<Longrightarrow> keeps s (reportProgress ph c t s1) = keeps s s1"
  by (simp add: keeps_def reportProgress_def errorReports_def)

lemma keeps_report_left [simp]:
  "ph \<noteq> Error \<Longrightarrow> keeps (reportProgress ph c t s) s1 = keeps s s1"
  by (simp add: keeps_def reportProgress_def errorReports_def)


lemma keeps_download_embedding:
  "download Loading_embedding out s = (r, s') \<Longrightarrow> keeps s s'"
  by (erule keeps_download) simp




lemma keeps_loadEmbeddingModel_finish:
  "loadEmbeddingModel_finish env s = (r, s') \<Longrightarrow> keeps s s'"
  by (auto simp: loadEmbeddingModel_finish_def Let_def split: sum.splits option.splits prod.splits
      dest!: keeps_download_embedding)

lemma keeps_loadEmbeddingModel: "loadEmbeddingModel env s = (r, s') \<Longrightarrow> keeps s s'"
  by (auto simp: loadEmbeddingModel_def loadEmbeddingModel_begin_def Let_def
      split: if_splits dest!: keeps_loadEmbeddingModel_finish)







lemma keeps_initialize: "initialize env s = (r, s') \<Longrightarrow> keeps s s'"
  by (auto simp: initialize_def keeps_def errorReports_def split: if_splits option.splits)

lemma keeps_ensureInitialized: "ensureInitialized env s = (r, s') \<Longrightarrow> keeps s s'"
  by (auto simp: ensureInitialized_def split: if_splits dest: keeps_initialize)

lemma embeddingModel_reportProgress [simp]:
  "embeddingModel (reportProgress ph c t s) = embeddingModel s"
  by (simp add: reportProgress_def)

lemma visionModel_reportProgress [simp]:
  "visionModel (reportProgress ph c t s) = visionModel s"
  by (simp add: reportProgress_def)

lemma loadEmbeddingModel_resident:
  "loadEmbeddingModel env s = (Inr (), s') \<Longrightarrow> embeddingModel s' \<noteq> None"
  by (auto simp: loadEmbeddingModel_def loadEmbeddingModel_begin_def loadEmbeddingModel_finish_def
      Let_def split: if_splits sum.splits option.splits prod.splits)



lemma unloadVisionModel_cases:
  "unloadVisionModel env s = (r, s') \<Longrightarrow>
   embeddingModel s' = embeddingModel s
   \<and> (visionModel s = None \<and> r = Inr () \<and> visionModel s' = None
      \<or> visionModel s \<noteq> None \<and> visionDestroy env = None \<and> r = Inr ()
          \<and> visionModel s' = None
      \<or> (\<exists>d. visionModel s \<noteq> None \<and> visionDestroy env = Some d \<and> r = Inl d
              \<and> visionModel s' = visionModel s))"
  by (auto simp: unloadVisionModel_def Let_def reportProgress_def
      split: if_splits option.splits)

lemma unloadEmbeddingModel_cases:
  "unloadEmbeddingModel env s = (r, s') \<Longrightarrow>
   visionModel s' = visionModel s
   \<and> (embeddingModel s = None \<and> r = Inr () \<and> embeddingModel s' = None
      \<or> embeddingModel s \<noteq> None \<and> embeddingDestroy env = None \<and> r = Inr ()
          \<and> embeddingModel s' = None
      \<or> (\<exists>d. embeddingModel s \<noteq> None \<and> embeddingDestroy env = Some d \<and> r = Inl d
              \<and> embeddingModel s' = embeddingModel s))"
  by (auto simp: unloadEmbeddingModel_def split: if_splits option.splits)

lemma indexCatch_cleanup:
  assumes "indexCatch env e s = (r, s')"
  shows "store s' = store s \<and> errorReports s' = Suc (errorReports s) \<and> (\<exists>e'. r = Inl e')
         \<and> (visionDestroy env = None \<longrightarrow>
              visionModel s' = None
              \<and> (embeddingDestroy env = None \<longrightarrow> r = Inl e \<and> embeddingModel s' = None)
              \<and> (\<forall>d. embeddingDestroy env = Some d \<longrightarrow> embeddingModel s \<noteq> None \<longrightarrow>
                     r = Inl d \<and> embeddingModel s' = embeddingModel s))"
proof -
  let ?s0 = "reportProgress Error 0 0 s"
  obtain r1 s1 where u1: "unloadVisionModel env ?s0 = (r1, s1)"
    by (cases "unloadVisionModel env ?s0")
  obtain r2 s2 where u2: "unloadEmbeddingModel env s1 = (r2, s2)"
    by (cases "unloadEmbeddingModel env s1")
  have k0: "store ?s0 = store s" "errorReports ?s0 = Suc (errorReports s)"
    "embeddingModel ?s0 = embeddingModel s"
    by (simp_all add: reportProgress_def errorReports_def)
  from keeps_unloadVisionModel [OF u1] keeps_unloadEmbeddingModel [OF u2] k0
  have k: "store s1 = store s" "errorReports s1 = Suc (errorReports s)"
    "store s2 = store s" "errorReports s2 = Suc (errorReports s)"
    by (simp_all add: keeps_def)
  from unloadVisionModel_cases [OF u1] unloadEmbeddingModel_cases [OF u2] k k0 assms u1 u2
  show ?thesis
    by (auto simp: indexCatch_def)
qed









subsection \<open>Captioning failures\<close>

lemma captionImage_recovers:
  "visionModel s \<noteq> None \<Longrightarrow> complete env p = Inl e \<Longrightarrow>
   captionImage env p s = Inr (''Image file: '' @ (if lastSegment p = [] then ''unknown'' else lastSegment p))"
  by (simp add: captionImage_def fallbackCaption_def)

lemma captionImage_never_fails:
  "visionModel s \<noteq> None \<Longrightarrow> \<exists>cap. captionImage env p s = Inr cap"
  by (simp add: captionImage_def split: sum.splits)


lemma captionLoop_example:
  "fst (captionLoop captionFailsEnv 2 0 [exampleImage ''cat.png'', exampleImage ''dog.png''] []
          visionEngine)
   = Inr [exampleCaptionedImage ''cat.png'' ''Image file: cat.png'',
          exampleCaptionedImage ''dog.png'' ''Image file: dog.png'']"
  by code_simp

lemma indexFiles_captionFails_example:
  "fst (indexFiles captionFailsEnv [exampleImage ''cat.png'', exampleImage ''dog.png''] newEngine)
   = Inr ()
   \<and> map caption (files (store (snd (indexFiles captionFailsEnv
         [exampleImage ''cat.png'', exampleImage ''dog.png''] newEngine))))
     = [Some ''Image file: cat.png'', Some ''Image file: dog.png'']"
  by code_simp

lemma captionImage_unknown_example:
  "captionImage captionFailsEnv ''/photos/'' visionEngine = Inr ''Image file: unknown''"
  by code_simp

text \<open>
  C7, as stated, has the caption after a failure be \<open>Image file: \<close> followed by the last
  segment of the path. For a path that ends in a slash the last segment is empty and the
  caption is \<open>Image file: unknown\<close>.
\<close>

theorem captionImage_fallback_counterexample:
  "captionImage captionFailsEnv ''/photos/'' visionEngine
     \<noteq> Inr (''Image file: '' @ lastSegment ''/photos/'')"
  by code_simp

text \<open>
  C7, amended. A failure of the caption call never ends the image loop: when the vision
  model is loaded, every image has a path to read and every reset succeeds, the loop
  returns one captioned file for each image, in order, whatever the caption calls do; and
  the caption of an image whose caption call failed is \<open>Image file: \<close> followed by the
  last segment of its path, or by \<open>unknown\<close> when that segment is empty.
\<close>

theorem captionLoop_recovers_caption_failures:
  assumes "visionModel s \<noteq> None"
    and "\<forall>f \<in> set images. \<exists>p. imagePathOf env f = Inr p"
    and "\<forall>k. visionReset env k = None"
  shows "\<exists>cs s'. captionLoop env n i images acc s = (Inr (acc @ cs), s')
           \<and> map cf_file cs = images
           \<and> (\<forall>c \<in> set cs. \<forall>p e.
                 imagePathOf env (cf_file c) = Inr p \<longrightarrow> complete env p = Inl e \<longrightarrow>
                 cf_caption c =
                   ''Image file: '' @ (if lastSegment p = [] then ''unknown'' else lastSegment p))"
  using assms
proof (induction images arbitrary: i acc s)
  case Nil
  then show ?case by simp
next
  case (Cons f rest)
  let ?s1 = "reportProgress Captioning (i + 1) n s"
  from Cons.prems(2) obtain p where p: "imagePathOf env f = Inr p" by auto
  from Cons.prems(1) have v1: "visionModel ?s1 \<noteq> None" by simp
  from captionImage_never_fails [OF v1] obtain cap where cap: "captionImage env p ?s1 = Inr cap"
    by blast
  have capf: "\<forall>e. complete env p = Inl e \<longrightarrow>
      cap = ''Image file: '' @ (if lastSegment p = [] then ''unknown'' else lastSegment p)"
    using captionImage_recovers [OF v1, of env p] cap by auto
  let ?x = "\<lparr>cf_file = f, cf_caption = cap, cf_thumbnail = None\<rparr>"
  from Cons.prems(2) have rest: "\<forall>f \<in> set rest. \<exists>p. imagePathOf env f = Inr p" by simp
  from Cons.IH [OF v1 rest Cons.prems(3), of "i + 1" "acc @ [?x]"]
  obtain cs s' where
    run: "captionLoop env n (i + 1) rest (acc @ [?x]) ?s1 = (Inr ((acc @ [?x]) @ cs), s')"
    and fs: "map cf_file cs = rest"
    and caps: "\<forall>c \<in> set cs. \<forall>p e.
                 imagePathOf env (cf_file c) = Inr p \<longrightarrow> complete env p = Inl e \<longrightarrow>
                 cf_caption c =
                   ''Image file: '' @ (if lastSegment p = [] then ''unknown'' else lastSegment p)"
    by blast
  have a: "captionLoop env n i (f # rest) acc s = (Inr (acc @ (?x # cs)), s')"
    using p cap v1 Cons.prems(3) run by (simp add: Let_def)
  have b: "map cf_file (?x # cs) = f # rest" using fs by simp
  have c: "\<forall>c \<in> set (?x # cs). \<forall>p e.
                 imagePathOf env (cf_file c) = Inr p \<longrightarrow> complete env p = Inl e \<longrightarrow>
                 cf_caption c =
                   ''Image file: '' @ (if lastSegment p = [] then ''unknown'' else lastSegment p)"
    using caps capf p by auto
  show ?case
    by (rule exI [of _ "?x # cs"], rule exI [of _ s']) (intro conjI a b c)
qed


theorem captionLoop_recovers_caption_failures_witness:
  "visionModel visionEngine \<noteq> None
   \<and> fst (captionLoop captionFailsEnv 2 0 [exampleImage ''cat.png'', exampleImage ''dog.png'']
            [] visionEngine)
     = Inr [exampleCaptionedImage ''cat.png'' ''Image file: cat.png'',
            exampleCaptionedImage ''dog.png'' ''Image file: dog.png'']
   \<and> fst (indexFiles captionFailsEnv [exampleImage ''cat.png'', exampleImage ''dog.png'']
            newEngine) = Inr ()"
proof -
  have v: "visionModel visionEngine \<noteq> None" by (simp add: visionEngine_def)
  have p: "\<forall>f \<in> set [exampleImage ''cat.png'', exampleImage ''dog.png''].
             \<exists>p. imagePathOf captionFailsEnv f = Inr p"
    by (simp add: imagePathOf_def getReadableFilePath_def resizeImageForVision_def
        captionFailsEnv_def exampleEnv_def exampleImage_def)
  have r: "\<forall>k. visionReset captionFailsEnv k = None"
    by (simp add: captionFailsEnv_def exampleEnv_def)
  from captionLoop_recovers_caption_failures [OF v p r, of 2 0 "[]"]
    v captionLoop_example indexFiles_captionFails_example
  show ?thesis by simp
qed

subsection \<open>The empty batch\<close>

lemma reported_reportDownload:
  "reported (reportDownload ph ts s)
     = reported s @ map (\<lambda>t. \<lparr>phase = ph, current = t, total = 100\<rparr>) ts"
  by (induction ts arbitrary: s) (auto simp: reportProgress_def)

lemma visionModel_reportDownload [simp]: "visionModel (reportDownload ph ts s) = visionModel s"
  by (induction ts arbitrary: s) auto

lemma download_reports:
  "download ph out s = (r, s1) \<Longrightarrow>
   visionModel s1 = visionModel s \<and> (\<exists>l. reported s1 = reported s @ l \<and> phase ` set l \<subseteq> {ph})"
  by (auto simp: download_def Let_def reported_reportDownload split: option.splits)

lemma loadEmbeddingModel_finish_reports:
  "loadEmbeddingModel_finish env s = (r, s1) \<Longrightarrow>
   visionModel s1 = visionModel s
   \<and> (\<exists>l. reported s1 = reported s @ l \<and> phase ` set l \<subseteq> {Loading_embedding})"
  by (auto simp: loadEmbeddingModel_finish_def Let_def reportProgress_def
      split: sum.splits option.splits prod.splits dest!: download_reports)

lemma loadEmbeddingModel_reports:
  "loadEmbeddingModel env s = (r, s1) \<Longrightarrow>
   visionModel s1 = visionModel s
   \<and> (\<exists>l. reported s1 = reported s @ l \<and> phase ` set l \<subseteq> {Loading_embedding}
          \<and> (embeddingModel s \<noteq> None \<longrightarrow> l = []))"
  by (auto simp: loadEmbeddingModel_def loadEmbeddingModel_begin_def Let_def reportProgress_def
      split: if_splits dest!: loadEmbeddingModel_finish_reports)

lemma captionPhases_empty: "captionPhases env [] s = (Inr [], s)"
  by (simp add: captionPhases_def imagePhase_def)

lemma indexBody_empty:
  "indexBody env [] s =
     (case loadEmbeddingModel env s of
        (Inl e, s1) \<Rightarrow> (Inl e, s1)
      | (Inr u, s1) \<Rightarrow> (Inr (), reportProgress Complete 0 0 (reportProgress Saving 0 0 s1)))"
  by (simp add: indexBody_def captionPhases_empty embeddingPhase_def savingPhase_def
      split: prod.splits sum.splits)


text \<open>
  C8, as stated, has an empty batch complete with no model loaded and no phase reported
  before \<open>complete\<close>. On a new engine the empty batch loads the embedding model, reporting
  \<open>loading_embedding\<close>, and reports \<open>saving\<close> before \<open>complete\<close>.
\<close>

theorem indexFiles_empty_batch_counterexample:
  "phasesSince newEngine (snd (indexFiles exampleEnv [] newEngine))
     = [Loading_embedding, Loading_embedding, Saving, Complete]
   \<and> embeddingModel (snd (indexFiles exampleEnv [] newEngine)) \<noteq> None"
  by code_simp

text \<open>
  C8, amended. An empty batch writes nothing to the database. When the embedding model
  loads or is already loaded, the call succeeds, the vision model field is left as it was,
  the embedding model is loaded afterwards, and the phases reported are those of loading
  the embedding model (none when it was already loaded, \<open>loading_embedding\<close> otherwise),
  then \<open>saving\<close>, then \<open>complete\<close>: no \<open>loading_vision\<close>, \<open>captioning\<close>,
  \<open>unloading_vision\<close> or \<open>embedding\<close> is reported.
\<close>

theorem indexFiles_empty_batch:
  assumes "fst (ensureInitialized env s) = Inr ()"
  shows "store (snd (indexFiles env [] s)) = store s
         \<and> (fst (loadEmbeddingModel env (snd (ensureInitialized env s))) = Inr () \<longrightarrow>
              fst (indexFiles env [] s) = Inr ()
              \<and> visionModel (snd (indexFiles env [] s)) = visionModel (snd (ensureInitialized env s))
              \<and> embeddingModel (snd (indexFiles env [] s)) \<noteq> None
              \<and> (\<exists>l. phasesSince (snd (ensureInitialized env s)) (snd (indexFiles env [] s))
                        = l @ [Saving, Complete]
                      \<and> set l \<subseteq> {Loading_embedding}
                      \<and> (embeddingModel (snd (ensureInitialized env s)) \<noteq> None \<longrightarrow> l = [])))"
proof -
  obtain s0 where i0: "ensureInitialized env s = (Inr (), s0)"
    using assms by (cases "ensureInitialized env s") auto
  obtain r1 s1 where l1: "loadEmbeddingModel env s0 = (r1, s1)"
    by (cases "loadEmbeddingModel env s0")
  have k: "keeps s s1"
    using keeps_ensureInitialized [OF i0] keeps_loadEmbeddingModel [OF l1] by (rule keeps_trans)
  from loadEmbeddingModel_reports [OF l1] obtain l where
    v: "visionModel s1 = visionModel s0"
    and l: "reported s1 = reported s0 @ l" "phase ` set l \<subseteq> {Loading_embedding}"
      "embeddingModel s0 \<noteq> None \<longrightarrow> l = []" by blast
  show ?thesis
  proof (cases r1)
    case (Inl e)
    obtain r s' where ic: "indexCatch env e s1 = (r, s')" by (cases "indexCatch env e s1")
    from indexCatch_cleanup [OF ic] have "store s' = store s1" and "\<exists>e'. r = Inl e'" by simp_all
    with ic Inl l1 i0 k show ?thesis
      by (auto simp: indexFiles_def indexBody_empty keeps_def)
  next
    case (Inr u)
    let ?s' = "reportProgress Complete 0 0 (reportProgress Saving 0 0 s1)"
    have run: "indexFiles env [] s = (Inr (), ?s')"
      using Inr l1 i0 by (simp add: indexFiles_def indexBody_empty)
    have "phasesSince s0 ?s' = map phase l @ [Saving, Complete]"
      using l(1) by (simp add: phasesSince_def reportProgress_def)
    moreover have "set (map phase l) \<subseteq> {Loading_embedding}" using l(2) by simp
    moreover have "embeddingModel s0 \<noteq> None \<longrightarrow> map phase l = []" using l(3) by simp
    ultimately have ex: "\<exists>l. phasesSince s0 ?s' = l @ [Saving, Complete]
        \<and> set l \<subseteq> {Loading_embedding} \<and> (embeddingModel s0 \<noteq> None \<longrightarrow> l = [])"
      by blast
    from Inr l1 have "embeddingModel s1 \<noteq> None"
      using loadEmbeddingModel_resident [of env s0 s1] by simp
    with run k v ex i0 show ?thesis
      by (simp add: keeps_def)
  qed
qed


theorem indexFiles_empty_batch_witness:
  "fst (ensureInitialized exampleEnv exampleEngine) = Inr ()
   \<and> fst (loadEmbeddingModel exampleEnv (snd (ensureInitialized exampleEnv exampleEngine))) = Inr ()
   \<and> embeddingModel (snd (ensureInitialized exampleEnv exampleEngine)) \<noteq> None
   \<and> indexFiles exampleEnv [] exampleEngine
       = (Inr (), reportProgress Complete 0 0 (reportProgress Saving 0 0 exampleEngine))
   \<and> store (snd (indexFiles exampleEnv [] exampleEngine)) = store exampleEngine
   \<and> phasesSince exampleEngine (snd (indexFiles exampleEnv [] exampleEngine)) = [Saving, Complete]"
proof -
  have h: "fst (ensureInitialized exampleEnv exampleEngine) = Inr ()"
    by (simp add: ensureInitialized_def exampleEngine_def)
  have s0: "snd (ensureInitialized exampleEnv exampleEngine) = exampleEngine"
    by (simp add: ensureInitialized_def exampleEngine_def)
  have r: "embeddingModel exampleEngine \<noteq> None" by (simp add: exampleEngine_def)
  have l: "fst (loadEmbeddingModel exampleEnv exampleEngine) = Inr ()"
    using r by (simp add: loadEmbeddingModel_def loadEmbeddingModel_begin_def)
  have run: "indexFiles exampleEnv [] exampleEngine
       = (Inr (), reportProgress Complete 0 0 (reportProgress Saving 0 0 exampleEngine))"
    using r
    by (simp add: indexFiles_def indexBody_empty ensureInitialized_def exampleEngine_def
        loadEmbeddingModel_def loadEmbeddingModel_begin_def)
  from indexFiles_empty_batch [OF h] h s0 r l run show ?thesis
    by (simp add: phasesSince_def reportProgress_def)
qed

section \<open>Runs of the search coordinator\<close>

lemma short_list_cases: "length xs \<le> 1 \<Longrightarrow> xs = [] \<or> (\<exists>x. xs = [x])"
  by (cases xs) auto

lemma coordinator_inv_new: "coordinator_inv newCoordinator"
  by (simp add: coordinator_inv_def newCoordinator_def)

lemma coordinator_inv_shape:
  assumes "coordinator_inv s"
  shows "(running s = [] \<and> searchQueue s = [] \<and> \<not> searchInProgress s)
         \<or> (\<exists>y. running s = [y] \<and> searchInProgress s \<and> searchQueue s = [])
         \<or> (\<exists>y x. running s = [y] \<and> searchInProgress s \<and> searchQueue s = [x]
                   \<and> trim (fst x) \<noteq> [])"
proof -
  have "running s = [] \<or> (\<exists>x. running s = [x])"
    using assms by (intro short_list_cases) (simp add: coordinator_inv_def)
  moreover have "searchQueue s = [] \<or> (\<exists>x. searchQueue s = [x])"
    using assms by (intro short_list_cases) (simp add: coordinator_inv_def)
  moreover have "searchInProgress s \<longleftrightarrow> running s \<noteq> []"
    and "\<not> searchInProgress s \<longrightarrow> searchQueue s = []"
    and "\<forall>e \<in> set (searchQueue s). trim (fst e) \<noteq> []"
    using assms by (simp_all add: coordinator_inv_def)
  ultimately show ?thesis by fastforce
qed

lemma coordinator_inv_call:
  assumes "coordinator_inv s"
  shows "coordinator_inv (search_call query s)"
proof -
  consider
    (idle) "running s = []" "searchQueue s = []" "\<not> searchInProgress s"
    | (busy) y where "running s = [y]" "searchInProgress s" "searchQueue s = []"
    | (full) y x where "running s = [y]" "searchInProgress s" "searchQueue s = [x]"
        "trim (fst x) \<noteq> []"
    using coordinator_inv_shape [OF assms] by blast
  then show ?thesis
  proof cases
    case idle
    with assms show ?thesis
      by (auto simp: coordinator_inv_def search_call_def search_enter_def less_Suc_eq)
  next
    case busy
    with assms show ?thesis
      by (auto simp: coordinator_inv_def search_call_def search_enter_def less_Suc_eq)
  next
    case full
    with assms show ?thesis
      by (auto simp: coordinator_inv_def search_call_def search_enter_def less_Suc_eq)
  qed
qed


lemma coordinator_inv_return:
  assumes "coordinator_inv s"
  shows "coordinator_inv (search_return p results s)"
proof -
  consider
    (idle) "running s = []" "searchQueue s = []" "\<not> searchInProgress s"
    | (busy) y where "running s = [y]" "searchInProgress s" "searchQueue s = []"
    | (full) y x where "running s = [y]" "searchInProgress s" "searchQueue s = [x]"
        "trim (fst x) \<noteq> []"
    using coordinator_inv_shape [OF assms] by blast
  then show ?thesis
  proof cases
    case idle
    with assms show ?thesis by (simp add: search_return_def)
  next
    case busy
    with assms show ?thesis
      by (auto simp: coordinator_inv_def search_return_def Let_def)
  next
    case full
    with assms show ?thesis
      by (auto simp: coordinator_inv_def search_return_def search_enter_def Let_def)
  qed
qed

lemma coordinator_inv_step: "coordinator_inv s \<Longrightarrow> coordinator_inv (search_step s ev)"
  by (cases ev) (simp_all add: coordinator_inv_call coordinator_inv_return)

lemma coordinator_inv_foldl:
  "coordinator_inv s \<Longrightarrow> coordinator_inv (foldl search_step s events)"
  by (induction events arbitrary: s) (simp_all add: coordinator_inv_step)

lemma coordinator_inv_run: "coordinator_inv (search_run events)"
  by (simp add: search_run_def coordinator_inv_foldl coordinator_inv_new)

lemma passed_over_call: "passed_over p s \<Longrightarrow> passed_over p (search_call query s)"
  by (auto simp: passed_over_def search_call_def search_enter_def)

lemma passed_over_return: "passed_over p s \<Longrightarrow> passed_over p (search_return p' results s)"
  by (auto simp: passed_over_def search_return_def search_enter_def Let_def split: list.splits)

lemma passed_over_step: "passed_over p s \<Longrightarrow> passed_over p (search_step s ev)"
  by (cases ev) (simp_all add: passed_over_call passed_over_return)

lemma passed_over_foldl: "passed_over p s \<Longrightarrow> passed_over p (foldl search_step s events)"
  by (induction events arbitrary: s) (simp_all add: passed_over_step)

lemma overwritten_passed_over:
  assumes "coordinator_inv s" and "(query, p) \<in> set (searchQueue s)" and "trim newer \<noteq> []"
  shows "passed_over p (search_call newer s)"
proof -
  consider
    (idle) "running s = []" "searchQueue s = []" "\<not> searchInProgress s"
    | (busy) y where "running s = [y]" "searchInProgress s" "searchQueue s = []"
    | (full) y x where "running s = [y]" "searchInProgress s" "searchQueue s = [x]"
        "trim (fst x) \<noteq> []"
    using coordinator_inv_shape [OF assms(1)] by blast
  then show ?thesis
  proof cases
    case idle
    with assms(2) show ?thesis by simp
  next
    case busy
    with assms(2) show ?thesis by simp
  next
    case full
    from assms(2) full have x: "x = (query, p)" by simp
    from assms(1) full x have "p < nextPromise s" "p \<noteq> snd y"
      "p \<notin> fst ` set (settled s)"
      "snd ` set (executed s) \<subseteq> insert (snd y) (fst ` set (settled s))"
      by (simp_all add: coordinator_inv_def)
    moreover from this have "p \<notin> snd ` set (executed s)" by blast
    ultimately show ?thesis using full x assms(3)
      by (simp add: passed_over_def search_call_def search_enter_def)
  qed
qed

lemma search_run_append:
  "search_run (events @ later) = foldl search_step (search_run events) later"
  by (simp add: search_run_def)

lemma survivor_settled:
  assumes "coordinator_inv s" and "(query, p) \<in> set (searchQueue s)" and "trim newer \<noteq> []"
  shows "\<exists>q0 p0. running s = [(q0, p0)]
           \<and> (\<forall>r0 results.
                 (nextPromise s, results)
                   \<in> set (settled (search_return (nextPromise s) results
                                    (search_return p0 r0 (search_call newer s)))))"
proof -
  consider
    (idle) "running s = []" "searchQueue s = []" "\<not> searchInProgress s"
    | (busy) y where "running s = [y]" "searchInProgress s" "searchQueue s = []"
    | (full) y x where "running s = [y]" "searchInProgress s" "searchQueue s = [x]"
        "trim (fst x) \<noteq> []"
    using coordinator_inv_shape [OF assms(1)] by blast
  then show ?thesis
  proof cases
    case idle
    with assms(2) show ?thesis by simp
  next
    case busy
    with assms(2) show ?thesis by simp
  next
    case full
    obtain q0 p0 where y: "y = (q0, p0)" by (cases y)
    from assms(1) full y have "p0 < nextPromise s" by (simp add: coordinator_inv_def)
    then have ne: "p0 \<noteq> nextPromise s" by simp
    have "(nextPromise s, results)
            \<in> set (settled (search_return (nextPromise s) results
                             (search_return p0 r0 (search_call newer s))))" for r0 results
      using full y assms(3) ne
      by (simp add: search_call_def search_enter_def search_return_def Let_def)
    with full y show ?thesis by simp
  qed
qed


text \<open>Runs of the coordinator on the queries \<open>cat\<close>, \<open>dog\<close>, \<open>cat\<close>.\<close>

lemma search_run_cat_dog:
  "searchQueue (search_run [Call ''cat'', Call ''dog'']) = [(''dog'', 1)]
   \<and> running (search_run [Call ''cat'', Call ''dog'']) = [(''cat'', 0)]
   \<and> searchInProgress (search_run [Call ''cat'', Call ''dog''])
   \<and> nextPromise (search_run [Call ''cat'', Call ''dog'']) = 2"
  by code_simp

lemma search_run_cat_dog_cat:
  "executed (search_run [Call ''cat'', Call ''dog'', Call ''cat'', Return 0 [], Return 2 []])
     = [(''cat'', 0), (''cat'', 2)]
   \<and> map fst (settled (search_run
         [Call ''cat'', Call ''dog'', Call ''cat'', Return 0 [], Return 2 []])) = [0, 2]
   \<and> discarded (search_run [Call ''cat'', Call ''dog'', Call ''cat'', Return 0 [], Return 2 []])
     = [1]"
  by code_simp

lemma trim_cat_nonempty: "trim ''cat'' \<noteq> []"
  by code_simp

text \<open>
  C4, as stated, has every call that arrives during a search placed in the pending slot,
  overwriting what is there. A call with a blank query is answered at once with no results
  and leaves the slot as it is: after \<open>cat\<close> (executing) and \<open>dog\<close> (queued), a call with
  a blank query leaves \<open>dog\<close> queued, and its own promise is the only one settled.
\<close>

theorem search_blank_call_counterexample:
  "searchQueue (search_run [Call ''cat'', Call ''dog'', Call '' '']) = [(''dog'', 1)]
   \<and> map fst (settled (search_run [Call ''cat'', Call ''dog'', Call '' ''])) = [2]"
  by code_simp

text \<open>
  C4, amended. In every state of a run at most one \<open>executeSearch\<close> is running and the
  queue holds at most one entry. A call with a non-blank query that arrives during a search
  starts no execution and becomes the only queue entry. The call of an entry that is
  overwritten in this way is never executed, whatever happens later. When the running
  execution returns with an entry in the queue, that entry is taken out and is the one
  execution that starts.
\<close>

theorem search_single_flight_latest_wins:
  assumes "s = search_run events"
  shows "length (running s) \<le> 1
         \<and> length (searchQueue s) \<le> 1
         \<and> (searchInProgress s \<and> trim query \<noteq> [] \<longrightarrow>
              running (search_call query s) = running s
              \<and> executed (search_call query s) = executed s
              \<and> searchQueue (search_call query s) = [(query, nextPromise s)])
         \<and> ((older, p) \<in> set (searchQueue s) \<and> trim query \<noteq> [] \<longrightarrow>
              (older, p) \<notin> set (executed (foldl search_step (search_call query s) later)))
         \<and> (running s = [(q0, p0)] \<and> searchQueue s = [(q1, p1)] \<longrightarrow>
              running (search_return p0 results s) = [(q1, p1)]
              \<and> executed (search_return p0 results s) = executed s @ [(q1, p1)]
              \<and> searchQueue (search_return p0 results s) = [])"
proof -
  have inv: "coordinator_inv s" using assms by (simp add: coordinator_inv_run)
  have a: "length (running s) \<le> 1" and b: "length (searchQueue s) \<le> 1"
    using inv by (simp_all add: coordinator_inv_def)
  have c: "searchInProgress s \<and> trim query \<noteq> [] \<longrightarrow>
              running (search_call query s) = running s
              \<and> executed (search_call query s) = executed s
              \<and> searchQueue (search_call query s) = [(query, nextPromise s)]"
    by (simp add: search_call_def search_enter_def)
  have d: "(older, p) \<in> set (searchQueue s) \<and> trim query \<noteq> [] \<longrightarrow>
              (older, p) \<notin> set (executed (foldl search_step (search_call query s) later))"
  proof
    assume h: "(older, p) \<in> set (searchQueue s) \<and> trim query \<noteq> []"
    with overwritten_passed_over [OF inv, of older p query]
    have "passed_over p (foldl search_step (search_call query s) later)"
      by (simp add: passed_over_foldl)
    then have "p \<notin> snd ` set (executed (foldl search_step (search_call query s) later))"
      by (simp add: passed_over_def)
    then show "(older, p) \<notin> set (executed (foldl search_step (search_call query s) later))"
      by force
  qed
  have e: "running s = [(q0, p0)] \<and> searchQueue s = [(q1, p1)] \<longrightarrow>
              running (search_return p0 results s) = [(q1, p1)]
              \<and> executed (search_return p0 results s) = executed s @ [(q1, p1)]
              \<and> searchQueue (search_return p0 results s) = []"
  proof
    assume h: "running s = [(q0, p0)] \<and> searchQueue s = [(q1, p1)]"
    with inv have "trim q1 \<noteq> []" by (simp add: coordinator_inv_def)
    with h show "running (search_return p0 results s) = [(q1, p1)]
              \<and> executed (search_return p0 results s) = executed s @ [(q1, p1)]
              \<and> searchQueue (search_return p0 results s) = []"
      by (simp add: search_return_def search_enter_def Let_def)
  qed
  from a b c d e show ?thesis by blast
qed


theorem search_single_flight_latest_wins_witness:
  "searchInProgress (search_run [Call ''cat'', Call ''dog'']) \<and> trim ''cat'' \<noteq> []
   \<and> (''dog'', 1) \<in> set (searchQueue (search_run [Call ''cat'', Call ''dog'']))
   \<and> running (search_run [Call ''cat'', Call ''dog'']) = [(''cat'', 0)]
   \<and> searchQueue (search_call ''cat'' (search_run [Call ''cat'', Call ''dog''])) = [(''cat'', 2)]
   \<and> (''dog'', 1) \<notin> set (executed (foldl search_step
         (search_call ''cat'' (search_run [Call ''cat'', Call ''dog'']))
         [Return 0 [], Return 2 []]))
   \<and> running (search_return 0 [] (search_run [Call ''cat'', Call ''dog''])) = [(''dog'', 1)]
   \<and> executed (search_run [Call ''cat'', Call ''dog'', Call ''cat'', Return 0 [], Return 2 []])
     = [(''cat'', 0), (''cat'', 2)]"
proof -
  have h: "(''dog'', 1) \<in> set (searchQueue (search_run [Call ''cat'', Call ''dog'']))"
    using search_run_cat_dog by simp
  from search_single_flight_latest_wins
         [OF refl, of "[Call ''cat'', Call ''dog'']" "''cat''" "''dog''" 1
            "[Return 0 [], Return 2 []]" "''cat''" 0 "''dog''" 1 "[]"]
    h trim_cat_nonempty search_run_cat_dog search_run_cat_dog_cat
  show ?thesis by simp
qed

text \<open>
  C10. When a queue entry is overwritten by a call with a newer non-blank query, the promise
  of the overwritten call is not settled in any later state of the run. The promise of the
  newer call is settled once the running execution has returned and the execution that
  was then started for the newer query has returned.
\<close>

theorem superseded_promise_never_settled:
  assumes "(query, p) \<in> set (searchQueue (search_run events))" and "trim newer \<noteq> []"
  shows "p \<notin> fst ` set (settled (search_run (events @ Call newer # later)))
         \<and> (\<exists>q0 p0. running (search_run events) = [(q0, p0)]
               \<and> (\<forall>r0 results.
                     (nextPromise (search_run events), results)
                       \<in> set (settled (search_run
                             (events @ [Call newer, Return p0 r0,
                                        Return (nextPromise (search_run events)) results])))))"
proof -
  have inv: "coordinator_inv (search_run events)" by (rule coordinator_inv_run)
  from overwritten_passed_over [OF inv assms]
  have "passed_over p (foldl search_step (search_call newer (search_run events)) later)"
    by (rule passed_over_foldl)
  then have "p \<notin> fst ` set (settled (search_run (events @ Call newer # later)))"
    by (simp add: search_run_append passed_over_def)
  with survivor_settled [OF inv assms] show ?thesis
    by (simp add: search_run_append)
qed


theorem superseded_promise_never_settled_witness:
  "(''dog'', 1) \<in> set (searchQueue (search_run [Call ''cat'', Call ''dog'']))
   \<and> trim ''cat'' \<noteq> []
   \<and> 1 \<notin> fst ` set (settled (search_run
          ([Call ''cat'', Call ''dog''] @ Call ''cat'' # [Return 0 [], Return 2 []])))
   \<and> map fst (settled (search_run
          [Call ''cat'', Call ''dog'', Call ''cat'', Return 0 [], Return 2 []])) = [0, 2]"
proof -
  have h: "(''dog'', 1) \<in> set (searchQueue (search_run [Call ''cat'', Call ''dog'']))"
    using search_run_cat_dog by simp
  from superseded_promise_never_settled
         [OF h trim_cat_nonempty, of "[Return 0 [], Return 2 []]"]
    h trim_cat_nonempty search_run_cat_dog_cat
  show ?thesis by simp
qed

section \<open>Loading the models\<close>

text \<open>
  C6. A call of \<open>loadEmbeddingModel\<close> made while a load is in flight should wait for that
  load. The started load stores the new instance in \<open>embeddingModel\<close> before its download
  begins, so the second call takes the first branch, for a model already loaded: on a new
  engine, after a first call has started the load and while the loading flag is still set,
  a second call returns at once, the instance it finds has not been initialised, and no
  \<open>init()\<close> has been called yet.
\<close>

theorem overlapping_load_returns_at_once:
  "fst (loadEmbeddingModel_begin newEngine) = Started
   \<and> embeddingModelLoading (snd (loadEmbeddingModel_begin newEngine))
   \<and> fst (loadEmbeddingModel_begin (snd (loadEmbeddingModel_begin newEngine))) = AlreadyLoaded
   \<and> map_option initialized
        (embeddingModel (snd (loadEmbeddingModel_begin (snd (loadEmbeddingModel_begin newEngine)))))
       = Some False
   \<and> embeddingInits (snd (loadEmbeddingModel_begin (snd (loadEmbeddingModel_begin newEngine))))
       = 0"
  by (simp add: loadEmbeddingModel_begin_def newEngine_def reportProgress_def Let_def)

text \<open>
  C5. At most one model should be resident. \<open>loadEmbeddingModel\<close> does not look at
  \<open>visionModel\<close>; only \<open>indexFiles\<close> unloads one model before it loads the other. With an
  engine that has loaded its vision model for a batch and is inside the image loop, a
  search for \<open>cat\<close> loads the embedding model and leaves both fields set.
\<close>

theorem search_during_captioning_loads_both:
  "fst (loadVisionModel exampleEnv (snd (ensureInitialized exampleEnv newEngine))) = Inr ()
   \<and> embeddingModel (snd (loadVisionModel exampleEnv
                             (snd (ensureInitialized exampleEnv newEngine)))) = None
   \<and> visionModel (snd (search_direct exampleEnv ''cat''
        (snd (loadVisionModel exampleEnv (snd (ensureInitialized exampleEnv newEngine))))))
       \<noteq> None
   \<and> embeddingModel (snd (search_direct exampleEnv ''cat''
        (snd (loadVisionModel exampleEnv (snd (ensureInitialized exampleEnv newEngine))))))
       \<noteq> None"
  by (simp add: search_direct_def executeSearch_def generateEmbedding_def rankRows_def
      joinRows_def loadEmbeddingModel_def loadEmbeddingModel_begin_def
      loadEmbeddingModel_finish_def loadVisionModel_def visionEnsureDownloaded_def
      visionCheckAndDownload_def download_def ensureInitialized_def initialize_def
      reportProgress_def exampleEnv_def newEngine_def trim_cat Let_def)

end
